theory Spec2Isabelle
  imports Main "HOL-Library.Multiset"
begin

section \<open>JavaScript string primitives used by the scan handler\<close>

text \<open>
  Strings are lists of code units below 256 (\<^typ>\<open>char\<close>). Within that range the
  white space and line terminators that \<open>String.prototype.trim\<close> and \<open>parseInt\<close> skip are
  TAB, LF, VT, FF, CR, SP and NBSP.
\<close>

definition js_isspace :: "char \<Rightarrow> bool" where
  "js_isspace c = (c \<in> set [CHR 0x09, CHR 0x0A, CHR 0x0B, CHR 0x0C, CHR 0x0D, CHR 0x20, CHR 0xA0])"

definition js_trim :: "string \<Rightarrow> string" where
  "js_trim s = rev (dropWhile js_isspace (rev (dropWhile js_isspace s)))"

definition startsWith :: "string \<Rightarrow> string \<Rightarrow> bool" where
  "startsWith s p = (take (length p) s = p)"

text \<open>\<open>s.split(sep)\<close> for a separator of one code unit; the result is never empty.\<close>

fun js_split :: "char \<Rightarrow> string \<Rightarrow> string list" where
  "js_split sep [] = [[]]"
| "js_split sep (c # cs) =
     (if c = sep then [] # js_split sep cs
      else (case js_split sep cs of [] \<Rightarrow> [[c]] | w # ws \<Rightarrow> (c # w) # ws))"

text \<open>Array indexing \<open>xs[i]\<close>: \<open>None\<close> is JavaScript's \<open>undefined\<close>.\<close>

definition js_index :: "'a list \<Rightarrow> nat \<Rightarrow> 'a option" where
  "js_index xs i = (if i < length xs then Some (xs ! i) else None)"

section \<open>JavaScript numbers\<close>

text \<open>
  A JavaScript number is an IEEE double. The numbers that reach the two point-changing
  handlers are \<open>NaN\<close>, the infinities and doubles with an integral value: \<open>parseInt\<close>
  returns one of these and balances are sums of them. \<open>Finite n\<close> is the double whose
  value is the integer \<open>n\<close>. Doubles with a fractional part and the sign of zero are
  outside the model.

  \<open>to_double\<close> rounds a mathematical integer to the nearest double: exact up to \<open>2^53\<close>
  in magnitude, beyond that rounded to 53 significant bits with ties to the even
  significand, and an infinity once the rounded magnitude reaches \<open>2^1024\<close>.
\<close>

datatype js_number = NaN | Finite int | PosInf | NegInf

function bit_length :: "int \<Rightarrow> nat" where
  "bit_length n = (if n \<le> 0 then 0 else Suc (bit_length (n div 2)))"
  by pat_completeness auto
termination
  by (relation "measure nat") auto

declare bit_length.simps [simp del]

definition round_at :: "nat \<Rightarrow> int \<Rightarrow> int" where
  "round_at e n =
     (let q = n div 2 ^ e; r = n mod 2 ^ e; h = 2 ^ (e - 1)
      in (if h < r \<or> (r = h \<and> odd q) then q + 1 else q) * 2 ^ e)"

definition round53 :: "int \<Rightarrow> int" where
  "round53 n = (if n \<le> 2 ^ 53 then n else round_at (bit_length n - 53) n)"

definition overflow_bound :: int where
  "overflow_bound = 2 ^ 1024"

definition to_double :: "int \<Rightarrow> js_number" where
  "to_double n =
     (if \<bar>n\<bar> \<le> 2 ^ 53 then Finite n
      else
        (let m = round53 \<bar>n\<bar>
         in if overflow_bound \<le> m then (if n < 0 then NegInf else PosInf)
            else Finite (if n < 0 then - m else m)))"

text \<open>Addition, negation and subtraction of doubles; a sum of integers is rounded once.\<close>

fun num_add :: "js_number \<Rightarrow> js_number \<Rightarrow> js_number" where
  "num_add (Finite a) (Finite b) = to_double (a + b)"
| "num_add NaN y = NaN"
| "num_add x NaN = NaN"
| "num_add PosInf NegInf = NaN"
| "num_add NegInf PosInf = NaN"
| "num_add PosInf y = PosInf"
| "num_add x PosInf = PosInf"
| "num_add NegInf y = NegInf"
| "num_add x NegInf = NegInf"

fun num_neg :: "js_number \<Rightarrow> js_number" where
  "num_neg NaN = NaN"
| "num_neg (Finite a) = Finite (- a)"
| "num_neg PosInf = NegInf"
| "num_neg NegInf = PosInf"

definition num_sub :: "js_number \<Rightarrow> js_number \<Rightarrow> js_number" where
  "num_sub x y = num_add x (num_neg y)"

text \<open>The comparisons \<open>x <= 0\<close> and \<open>x < 0\<close>, \<open>Math.max(0, x)\<close> and \<open>isNaN(x)\<close>.\<close>

fun num_le0 :: "js_number \<Rightarrow> bool" where
  "num_le0 NaN = False"
| "num_le0 (Finite a) = (a \<le> 0)"
| "num_le0 PosInf = False"
| "num_le0 NegInf = True"

fun num_lt0 :: "js_number \<Rightarrow> bool" where
  "num_lt0 NaN = False"
| "num_lt0 (Finite a) = (a < 0)"
| "num_lt0 PosInf = False"
| "num_lt0 NegInf = True"

fun max0 :: "js_number \<Rightarrow> js_number" where
  "max0 NaN = NaN"
| "max0 (Finite a) = Finite (max 0 a)"
| "max0 PosInf = PosInf"
| "max0 NegInf = Finite 0"

definition js_isNaN :: "js_number \<Rightarrow> bool" where
  "js_isNaN x = (x = NaN)"

section \<open>\<open>parseInt\<close>\<close>

text \<open>
  \<open>parseInt(str)\<close> without a radix: skip leading white space, read an optional sign,
  switch to radix 16 after a \<open>0x\<close>/\<open>0X\<close> prefix, read the longest run of digits of the
  radix and ignore whatever follows. \<open>parseInt_mathInt\<close> is the signed mathematical
  integer of that run (\<open>None\<close> when the run is empty); \<open>parseInt\<close> returns it as a
  number, \<open>NaN\<close> when there is none.
\<close>

definition digit_of :: "nat \<Rightarrow> char \<Rightarrow> nat option" where
  "digit_of R c =
     (let n = (of_char c :: nat);
          v = (if 48 \<le> n \<and> n \<le> 57 then Some (n - 48)
               else if 97 \<le> n \<and> n \<le> 122 then Some (n - 87)
               else if 65 \<le> n \<and> n \<le> 90 then Some (n - 55)
               else None)
      in case v of None \<Rightarrow> None | Some d \<Rightarrow> if d < R then Some d else None)"

fun digits_value :: "nat \<Rightarrow> int \<Rightarrow> string \<Rightarrow> int" where
  "digits_value R acc [] = acc"
| "digits_value R acc (c # cs) =
     (case digit_of R c of
        None \<Rightarrow> acc
      | Some d \<Rightarrow> digits_value R (acc * int R + int d) cs)"

definition parseInt_mathInt :: "string \<Rightarrow> int option" where
  "parseInt_mathInt str =
     (let s0 = dropWhile js_isspace str;
          neg = (s0 \<noteq> [] \<and> hd s0 = CHR ''-'');
          s1 = (if s0 \<noteq> [] \<and> (hd s0 = CHR ''+'' \<or> hd s0 = CHR ''-'') then tl s0 else s0);
          hex = (startsWith s1 ''0x'' \<or> startsWith s1 ''0X'');
          R = (if hex then 16 else 10);
          s2 = (if hex then drop 2 s1 else s1);
          z = takeWhile (\<lambda>c. digit_of R c \<noteq> None) s2
      in if z = [] then None
         else Some ((if neg then - 1 else 1) * digits_value R 0 z))"

definition js_parseInt :: "string \<Rightarrow> js_number" where
  "js_parseInt str = (case parseInt_mathInt str of None \<Rightarrow> NaN | Some n \<Rightarrow> to_double n)"

section \<open>Scan payload parser (the inner \<open>try\<close> block of \<open>POST /api/scan-qr\<close>)\<close>

record parsed =
  p_qrId :: string
  p_batchId :: string
  p_points :: js_number

text \<open>The three ways the \<open>try\<close> block can throw; all are caught by the same handler.\<close>

datatype parse_error = MissingFields | InvalidPoints | TypeError

definition is_qrIdLine :: "string \<Rightarrow> bool" where
  "is_qrIdLine line = startsWith (js_trim line) ''QR ID:''"

definition is_batchIdLine :: "string \<Rightarrow> bool" where
  "is_batchIdLine line = startsWith (js_trim line) ''Batch ID:''"

definition is_pointsLine :: "string \<Rightarrow> bool" where
  "is_pointsLine line = startsWith (js_trim line) ''Points:''"

text \<open>\<open>line.split(':')[1].trim()\<close>; calling \<open>trim\<close> on \<open>undefined\<close> throws.\<close>

definition field_value :: "string \<Rightarrow> parse_error + string" where
  "field_value line =
     (case js_index (js_split CHR '':'' line) 1 of
        None \<Rightarrow> Inl TypeError
      | Some seg \<Rightarrow> Inr (js_trim seg))"

definition parse_lines :: "string list \<Rightarrow> parse_error + parsed" where
  "parse_lines lines =
     (case (find is_qrIdLine lines, find is_batchIdLine lines, find is_pointsLine lines) of
        (Some qrIdLine, Some batchIdLine, Some pointsLine) \<Rightarrow>
          (case field_value qrIdLine of
             Inl e \<Rightarrow> Inl e
           | Inr qrId \<Rightarrow>
          (case field_value batchIdLine of
             Inl e \<Rightarrow> Inl e
           | Inr batchId \<Rightarrow>
          (case field_value pointsLine of
             Inl e \<Rightarrow> Inl e
           | Inr pointsField \<Rightarrow>
          (let points = js_parseInt pointsField in
             if js_isNaN points \<or> num_le0 points then Inl InvalidPoints
             else Inr \<lparr>p_qrId = qrId, p_batchId = batchId, p_points = points\<rparr>))))
      | _ \<Rightarrow> Inl MissingFields)"

definition parse_qr :: "string \<Rightarrow> parse_error + parsed" where
  "parse_qr qrData = parse_lines (js_split CHR 0x0A qrData)"

section \<open>Data model (\<open>models/qrs.ts\<close>, \<open>models/customer.ts\<close>)\<close>

record QRItem =
  qrId :: string
  qrCodeUrl :: string
  isScanned :: bool

record QRBatch =
  batchId :: string
  qrData :: string
  format :: string
  size_wh :: string
  qrCodes :: "QRItem list"
  totalCount :: int
  isActive :: bool

record customer =
  cust_id :: string
  name :: string
  city :: string
  username :: string
  phone :: string
  email :: "string option"
  password :: string
  points :: js_number

text \<open>
  The two collections the handlers touch, in the store's natural order. A document's
  position stands for its \<open>_id\<close>: no handler inserts into, deletes from or reorders the
  batch collection or a batch's \<open>qrCodes\<close> array.
\<close>

record store =
  customers :: "customer list"
  batches :: "QRBatch list"

text \<open>Position of the first element satisfying a predicate.\<close>

fun findIndex :: "('a \<Rightarrow> bool) \<Rightarrow> 'a list \<Rightarrow> nat option" where
  "findIndex P [] = None"
| "findIndex P (x # xs) = (if P x then Some 0 else map_option Suc (findIndex P xs))"

section \<open>Redemption: \<open>POST /api/scan-qr\<close>\<close>

datatype rejection =
    QrDataRequired
  | MalformedPayload
  | BatchNotFound
  | CodeNotFound
  | AlreadyRedeemed
  | CustomerNotFound

record scan_data =
  pointsEarned :: js_number
  totalPoints :: js_number
  data_qrId :: string
  data_batchId :: string
  customer_id :: string
  customer_name :: string
  customer_username :: string
  customer_points :: js_number

datatype response = Rejected rejection | Success scan_data

fun http_status :: "response \<Rightarrow> nat" where
  "http_status (Success d) = 200"
| "http_status (Rejected QrDataRequired) = 400"
| "http_status (Rejected MalformedPayload) = 400"
| "http_status (Rejected BatchNotFound) = 404"
| "http_status (Rejected CodeNotFound) = 404"
| "http_status (Rejected AlreadyRedeemed) = 400"
| "http_status (Rejected CustomerNotFound) = 404"

text \<open>\<open>QRBatch.findOne({ batchId, isActive: true })\<close>\<close>

definition findOne_batch :: "store \<Rightarrow> string \<Rightarrow> nat option" where
  "findOne_batch s bid = findIndex (\<lambda>b. batchId b = bid \<and> isActive b) (batches s)"

text \<open>\<open>qrBatch.qrCodes.find(qr => qr.qrId === qrId)\<close>\<close>

definition find_code :: "QRBatch \<Rightarrow> string \<Rightarrow> nat option" where
  "find_code qrBatch qid = findIndex (\<lambda>qr. qrId qr = qid) (qrCodes qrBatch)"

text \<open>
  \<open>Customer.findByIdAndUpdate(id, { $inc: { points } }, { new: true })\<close>: the updated
  document, or \<open>None\<close> (and no write) when no customer has the id. The increment is
  an addition of doubles; a sum of integers of magnitude at most \<open>2^53\<close> is exact.
\<close>

definition findByIdAndUpdate_inc ::
  "store \<Rightarrow> string \<Rightarrow> js_number \<Rightarrow> store \<times> customer option" where
  "findByIdAndUpdate_inc s uid n =
     (case findIndex (\<lambda>c. cust_id c = uid) (customers s) of
        None \<Rightarrow> (s, None)
      | Some k \<Rightarrow>
          (let c = customers s ! k; c' = c\<lparr>points := num_add (points c) n\<rparr>
           in (s\<lparr>customers := (customers s)[k := c']\<rparr>, Some c')))"

text \<open>
  \<open>qrCode.isScanned = true; await qrBatch.save()\<close>: the save writes the one modified
  path, \<open>qrCodes.ci.isScanned\<close>, of the batch document at position \<open>bi\<close>.
\<close>

definition save_scanned :: "store \<Rightarrow> nat \<Rightarrow> nat \<Rightarrow> store" where
  "save_scanned s bi ci =
     (if bi < length (batches s) \<and> ci < length (qrCodes (batches s ! bi)) then
        (let b = batches s ! bi; qr = qrCodes b ! ci
         in s\<lparr>batches := (batches s)[bi := b\<lparr>qrCodes := (qrCodes b)[ci := qr\<lparr>isScanned := True\<rparr>]\<rparr>]\<rparr>)
      else s)"

text \<open>The \<open>data\<close> of the success response; JSON writes a number that is not finite as \<open>null\<close>.\<close>

definition success_data :: "parsed \<Rightarrow> customer \<Rightarrow> scan_data" where
  "success_data p c =
     \<lparr>pointsEarned = p_points p, totalPoints = points c,
      data_qrId = p_qrId p, data_batchId = p_batchId p,
      customer_id = cust_id c, customer_name = name c,
      customer_username = username c, customer_points = points c\<rparr>"

text \<open>
  The handler run to completion with no other request in between. Failures of the store
  itself (the outer \<open>catch\<close>, status 500) are outside the model.
\<close>

definition redeem :: "store \<Rightarrow> string \<Rightarrow> string \<Rightarrow> store \<times> response" where
  "redeem s uid qr_data =
     (if qr_data = [] then (s, Rejected QrDataRequired)
      else case parse_qr qr_data of
        Inl e \<Rightarrow> (s, Rejected MalformedPayload)
      | Inr p \<Rightarrow>
     (case findOne_batch s (p_batchId p) of
        None \<Rightarrow> (s, Rejected BatchNotFound)
      | Some bi \<Rightarrow>
     (case find_code (batches s ! bi) (p_qrId p) of
        None \<Rightarrow> (s, Rejected CodeNotFound)
      | Some ci \<Rightarrow>
          if isScanned (qrCodes (batches s ! bi) ! ci) then (s, Rejected AlreadyRedeemed)
          else
     (case findByIdAndUpdate_inc s uid (p_points p) of
        (s', None) \<Rightarrow> (s', Rejected CustomerNotFound)
      | (s', Some c) \<Rightarrow> (save_scanned s' bi ci, Success (success_data p c))))))"

text \<open>The same payload submitted \<open>n\<close> times in a row by the same caller.\<close>

fun redeem_times :: "nat \<Rightarrow> store \<Rightarrow> string \<Rightarrow> string \<Rightarrow> store \<times> response list" where
  "redeem_times 0 s uid qr_data = (s, [])"
| "redeem_times (Suc n) s uid qr_data =
     (case redeem s uid qr_data of
        (s', r) \<Rightarrow> (case redeem_times n s' uid qr_data of (s'', rs) \<Rightarrow> (s'', r # rs)))"

text \<open>What the queries of the handler return, as documents.\<close>

definition lookup_batch :: "store \<Rightarrow> string \<Rightarrow> QRBatch option" where
  "lookup_batch s bid = find (\<lambda>b. batchId b = bid \<and> isActive b) (batches s)"

definition lookup_code :: "QRBatch \<Rightarrow> string \<Rightarrow> QRItem option" where
  "lookup_code b qid = find (\<lambda>qr. qrId qr = qid) (qrCodes b)"

definition findById :: "store \<Rightarrow> string \<Rightarrow> customer option" where
  "findById s uid = find (\<lambda>c. cust_id c = uid) (customers s)"

definition balance :: "store \<Rightarrow> string \<Rightarrow> js_number option" where
  "balance s uid = map_option points (findById s uid)"

subsection \<open>The handler between its \<open>await\<close> points\<close>

text \<open>
  Node runs the handler's code between two \<open>await\<close>s without interruption, and the store
  applies each call atomically; requests interleave at the three awaited store calls.
\<close>

datatype request =
    Received string string
  | AwaitIncrement string parsed nat nat
  | AwaitSave parsed nat nat customer
  | Responded response

fun step :: "store \<Rightarrow> request \<Rightarrow> store \<times> request" where
  "step s (Received uid qr_data) =
     (s,
      if qr_data = [] then Responded (Rejected QrDataRequired)
      else case parse_qr qr_data of
        Inl e \<Rightarrow> Responded (Rejected MalformedPayload)
      | Inr p \<Rightarrow>
     (case findOne_batch s (p_batchId p) of
        None \<Rightarrow> Responded (Rejected BatchNotFound)
      | Some bi \<Rightarrow>
     (case find_code (batches s ! bi) (p_qrId p) of
        None \<Rightarrow> Responded (Rejected CodeNotFound)
      | Some ci \<Rightarrow>
          if isScanned (qrCodes (batches s ! bi) ! ci) then Responded (Rejected AlreadyRedeemed)
          else AwaitIncrement uid p bi ci)))"
| "step s (AwaitIncrement uid p bi ci) =
     (case findByIdAndUpdate_inc s uid (p_points p) of
        (s', None) \<Rightarrow> (s', Responded (Rejected CustomerNotFound))
      | (s', Some c) \<Rightarrow> (s', AwaitSave p bi ci c))"
| "step s (AwaitSave p bi ci c) = (save_scanned s bi ci, Responded (Success (success_data p c)))"
| "step s (Responded r) = (s, Responded r)"

text \<open>A schedule names, step by step, which request runs up to its next \<open>await\<close>.\<close>

fun run_schedule :: "store \<Rightarrow> request list \<Rightarrow> nat list \<Rightarrow> store \<times> request list" where
  "run_schedule s rs [] = (s, rs)"
| "run_schedule s rs (i # sched) =
     (if i < length rs then
        (case step s (rs ! i) of (s', r') \<Rightarrow> run_schedule s' (rs[i := r']) sched)
      else run_schedule s rs sched)"

section \<open>Administrative adjustment: \<open>PATCH /api/customers/:username/points\<close>\<close>

text \<open>The \<open>switch\<close> on the operation; anything but \<open>add\<close> and \<open>subtract\<close> is \<open>set\<close>.\<close>

definition newPoints :: "string \<Rightarrow> js_number \<Rightarrow> js_number \<Rightarrow> js_number" where
  "newPoints operation current pts =
     (if operation = ''add'' then num_add current pts
      else if operation = ''subtract'' then max0 (num_sub current pts)
      else max0 pts)"

datatype patch_rejection = PointsNotNumber | PatchCustomerNotFound

record patch_data =
  patch_username :: string
  patch_name :: string
  previousPoints :: js_number
  currentPoints :: js_number
  patch_operation :: string

datatype patch_response = PatchRejected patch_rejection | PatchOk patch_data

text \<open>
  The \<open>username\<close> path of the customer schema is declared \<open>trim: true, lowercase: true\<close>,
  and the string in a query filter on it is trimmed and lower-cased before the match.
\<close>

definition js_toLowerCase :: "string \<Rightarrow> string" where
  "js_toLowerCase str =
     map (\<lambda>c. let n = (of_char c :: nat)
              in if (65 \<le> n \<and> n \<le> 90) \<or> (192 \<le> n \<and> n \<le> 222 \<and> n \<noteq> 215)
                 then char_of (n + 32) else c) str"

definition cast_username :: "string \<Rightarrow> string" where
  "cast_username u = js_toLowerCase (js_trim u)"

text \<open>
  The body's \<open>points\<close> is \<open>None\<close> when it is not a number; otherwise it is the integer
  written in the JSON body, which the handler receives as a double (a literal with a
  fractional part is outside the model). \<open>operation\<close> is \<open>None\<close> when absent and then
  defaults to \<open>set\<close>.
\<close>

definition patch_points ::
  "store \<Rightarrow> string \<Rightarrow> int option \<Rightarrow> string option \<Rightarrow> store \<times> patch_response" where
  "patch_points s uname body_points body_operation =
     (let operation = (case body_operation of None \<Rightarrow> ''set'' | Some x \<Rightarrow> x) in
      case body_points of
        None \<Rightarrow> (s, PatchRejected PointsNotNumber)
      | Some n \<Rightarrow>
     (case findIndex (\<lambda>c. username c = cast_username uname) (customers s) of
        None \<Rightarrow> (s, PatchRejected PatchCustomerNotFound)
      | Some k \<Rightarrow>
          (let c = customers s ! k;
               c' = c\<lparr>points := newPoints operation (points c) (to_double n)\<rparr>
           in (s\<lparr>customers := (customers s)[k := c']\<rparr>,
               PatchOk \<lparr>patch_username = username c', patch_name = name c',
                        previousPoints = points c, currentPoints = points c',
                        patch_operation = operation\<rparr>))))"

section \<open>Operations of the system\<close>

text \<open>
  Registration, login and profile editing only read and write the customer collection;
  \<open>CustomerWrite f\<close> stands for any of them.
\<close>

datatype operation =
    ScanQr string string
  | PatchPoints string "int option" "string option"
  | CustomerWrite "customer list \<Rightarrow> customer list"

fun apply_operation :: "store \<Rightarrow> operation \<Rightarrow> store" where
  "apply_operation s (ScanQr uid qr_data) = fst (redeem s uid qr_data)"
| "apply_operation s (PatchPoints uname p operation) = fst (patch_points s uname p operation)"
| "apply_operation s (CustomerWrite f) = s\<lparr>customers := f (customers s)\<rparr>"

definition run_operations :: "store \<Rightarrow> operation list \<Rightarrow> store" where
  "run_operations s ops = foldl apply_operation s ops"

section \<open>Notions used in the statements\<close>

text \<open>The customer document after a credit of \<open>n\<close>, and the store after a redemption.\<close>

definition credited :: "store \<Rightarrow> nat \<Rightarrow> js_number \<Rightarrow> customer" where
  "credited s k n = (customers s ! k)\<lparr>points := num_add (points (customers s ! k)) n\<rparr>"

definition redeemed_store :: "store \<Rightarrow> nat \<Rightarrow> js_number \<Rightarrow> nat \<Rightarrow> nat \<Rightarrow> store" where
  "redeemed_store s k n bi ci =
     save_scanned (s\<lparr>customers := (customers s)[k := credited s k n]\<rparr>) bi ci"

subsection \<open>The order "nothing was un-scanned" on stores\<close>

text \<open>
  \<open>store_le s s'\<close>: the two stores hold the same batches and codes, position by position
  (same \<open>batchId\<close>, \<open>isActive\<close> and \<open>qrId\<close>), and every code scanned in \<open>s\<close> is scanned
  in \<open>s'\<close>.
\<close>

definition item_le :: "QRItem \<Rightarrow> QRItem \<Rightarrow> bool" where
  "item_le q q' \<longleftrightarrow> qrId q' = qrId q \<and> (isScanned q \<longrightarrow> isScanned q')"

definition batch_le :: "QRBatch \<Rightarrow> QRBatch \<Rightarrow> bool" where
  "batch_le b b' \<longleftrightarrow>
     batchId b' = batchId b \<and> isActive b' = isActive b \<and> list_all2 item_le (qrCodes b) (qrCodes b')"

definition store_le :: "store \<Rightarrow> store \<Rightarrow> bool" where
  "store_le s s' \<longleftrightarrow> list_all2 batch_le (batches s) (batches s')"

text \<open>The stores an operation sequence passes through, the first one included.\<close>

fun states :: "store \<Rightarrow> operation list \<Rightarrow> store list" where
  "states s [] = [s]"
| "states s (x # xs) = s # states (apply_operation s x) xs"

subsection \<open>Payloads as lines\<close>

text \<open>\<open>lines.join(sep)\<close>: the payload whose lines are \<open>ls\<close>.\<close>

fun js_join :: "char \<Rightarrow> string list \<Rightarrow> string" where
  "js_join sep [] = []"
| "js_join sep [l] = l"
| "js_join sep (l # ls) = l @ sep # js_join sep ls"

subsection \<open>The points field read as a base-10 integer\<close>



subsection \<open>The point value written in a payload\<close>

text \<open>
  The integer that stands in the points field of a payload, as \<open>parseInt\<close> reads it and
  before it is turned into a double.
\<close>

definition payload_points :: "string \<Rightarrow> int option" where
  "payload_points q =
     (case find is_pointsLine (js_split CHR 0x0A q) of
        None \<Rightarrow> None
      | Some pl \<Rightarrow> (case field_value pl of Inl e \<Rightarrow> None | Inr f \<Rightarrow> parseInt_mathInt f))"

text \<open>First match of a predicate in a list of lines, written without \<open>find\<close>.\<close>

definition first_match :: "(string \<Rightarrow> bool) \<Rightarrow> string list \<Rightarrow> string \<Rightarrow> bool" where
  "first_match P ls l \<longleftrightarrow> (\<exists>pre post. ls = pre @ l # post \<and> P l \<and> list_all (\<lambda>x. \<not> P x) pre)"

subsection \<open>A small store for concrete runs\<close>

definition ex_customer :: customer where
  "ex_customer =
     \<lparr>cust_id = ''u1'', name = ''Ann'', city = ''Pune'', username = ''ann'',
      phone = ''0123456789'', email = None, password = ''secret'', points = Finite 30\<rparr>"

definition ex_item :: QRItem where
  "ex_item = \<lparr>qrId = ''A1'', qrCodeUrl = ''/qr/A1.png'', isScanned = False\<rparr>"

definition ex_batch :: QRBatch where
  "ex_batch =
     \<lparr>batchId = ''B1'', qrData = ''Points: 50'', format = ''png'', size_wh = ''200x200'',
      qrCodes = [ex_item], totalCount = 1, isActive = True\<rparr>"

definition ex_store :: store where
  "ex_store = \<lparr>customers = [ex_customer], batches = [ex_batch]\<rparr>"

definition ex_payload :: string where
  "ex_payload = ''QR ID: A1\<newline>Batch ID: B1\<newline>Points: 50\<newline>URL: http://x''"

definition ex_parsed :: parsed where
  "ex_parsed = \<lparr>p_qrId = ''A1'', p_batchId = ''B1'', p_points = Finite 50\<rparr>"

definition ex_operations :: "operation list" where
  "ex_operations =
     [PatchPoints ''ann'' (Some 5) None, ScanQr ''u1'' ex_payload,
      CustomerWrite (\<lambda>cs. cs), ScanQr ''u1'' ex_payload]"

definition ex_inactive_store :: store where
  "ex_inactive_store =
     \<lparr>customers = [ex_customer], batches = [ex_batch\<lparr>isActive := False\<rparr>]\<rparr>"

definition ex_colon_payload :: string where
  "ex_colon_payload = ''QR ID: A:B\<newline>Batch ID: http://x\<newline>Points: 7:9''"

definition ex_big_payload :: string where
  "ex_big_payload = ''QR ID: A1\<newline>Batch ID: B1\<newline>Points: 9007199254740993''"

definition ex_dup_lines :: "string list" where
  "ex_dup_lines = [''Points: 5'', ''  QR ID:  A  '', ''QR ID: B'', ''Batch ID: X'']"


definition ex_lines :: "string list" where
  "ex_lines = [''QR ID: A1'', ''Batch ID: B1'', ''Points: 50'']"

definition ex_lines_reordered :: "string list" where
  "ex_lines_reordered = [''Points: 50'', ''QR ID: A1'', ''Batch ID: B1'']"

definition ex_lines_extra :: "string list" where
  "ex_lines_extra = [''QR ID: ZZ'', ''Points: 1'']"

section \<open>Facts about numbers\<close>

lemma to_double_exact: "\<bar>n\<bar> \<le> 2 ^ 53 \<Longrightarrow> to_double n = Finite n"
  by (simp only: to_double_def if_True)

lemma bit_length_nonpos: "n \<le> 0 \<Longrightarrow> bit_length n = 0"
  by (simp add: bit_length.simps [of n])

lemma bit_length_lower: "0 < n \<Longrightarrow> 2 ^ (bit_length n - 1) \<le> n"
proof (induction n rule: bit_length.induct)
  case (1 n)
  show ?case
  proof (cases "n div 2 \<le> 0")
    case True
    with "1.prems" have "bit_length n = Suc 0"
      by (simp add: bit_length.simps [of n] bit_length_nonpos)
    with "1.prems" show ?thesis by simp
  next
    case False
    with "1.IH" "1.prems" have ih: "2 ^ (bit_length (n div 2) - 1) \<le> n div 2" by simp
    from False have "bit_length (n div 2) \<noteq> 0"
      by (simp add: bit_length.simps [of "n div 2"])
    then have "bit_length n - 1 = Suc (bit_length (n div 2) - 1)"
      using "1.prems" by (simp add: bit_length.simps [of n])
    then have "(2::int) ^ (bit_length n - 1) = 2 * 2 ^ (bit_length (n div 2) - 1)"
      by (simp only: power_Suc)
    also have "\<dots> \<le> 2 * (n div 2)" using ih by simp
    also have "\<dots> \<le> n" by simp
    finally show ?thesis .
  qed
qed

lemma round_at_pos:
  assumes "2 ^ e \<le> n"
  shows "0 < round_at e n"
proof -
  have p: "(0::int) < 2 ^ e" by simp
  with assms have "0 < n div 2 ^ e"
    by (simp add: pos_imp_zdiv_pos_iff)
  then have "0 < (if 2 ^ (e - 1) < n mod 2 ^ e \<or> (n mod 2 ^ e = 2 ^ (e - 1) \<and> odd (n div 2 ^ e))
      then n div 2 ^ e + 1 else n div 2 ^ e)"
    by simp
  from this p show ?thesis
    unfolding round_at_def Let_def by (rule mult_pos_pos)
qed

lemma round53_pos:
  assumes "0 < n"
  shows "0 < round53 n"
proof (cases "n \<le> 2 ^ 53")
  case True
  with assms show ?thesis by (simp only: round53_def if_True)
next
  case False
  have a: "2 ^ (bit_length n - 1) \<le> n" using assms by (rule bit_length_lower)
  have b: "(2::int) ^ (bit_length n - 53) \<le> 2 ^ (bit_length n - 1)"
    by (rule power_increasing) simp_all
  from b a have "2 ^ (bit_length n - 53) \<le> n" by (rule order_trans)
  then have "0 < round_at (bit_length n - 53) n" by (rule round_at_pos)
  with False show ?thesis by (simp only: round53_def if_False)
qed

lemma to_double_not_NaN: "to_double n \<noteq> NaN"
  unfolding to_double_def Let_def by (simp only: split: if_split) simp

lemma num_le0_to_double: "num_le0 (to_double n) \<longleftrightarrow> n \<le> 0"
proof (cases "\<bar>n\<bar> \<le> 2 ^ 53")
  case True
  then show ?thesis by (simp only: to_double_def if_True num_le0.simps)
next
  case False
  then have nz: "n \<noteq> 0" by auto
  then have pos: "0 < round53 \<bar>n\<bar>" by (intro round53_pos) simp
  have td: "to_double n =
      (if overflow_bound \<le> round53 \<bar>n\<bar> then (if n < 0 then NegInf else PosInf)
       else Finite (if n < 0 then - round53 \<bar>n\<bar> else round53 \<bar>n\<bar>))"
    using False by (simp only: to_double_def if_False Let_def)
  show ?thesis
  proof (cases "n < 0")
    case True
    with pos show ?thesis unfolding td by (cases "overflow_bound \<le> round53 \<bar>n\<bar>") simp_all
  next
    case False
    with pos nz show ?thesis unfolding td by (cases "overflow_bound \<le> round53 \<bar>n\<bar>") simp_all
  qed
qed

lemma js_isNaN_to_double: "\<not> js_isNaN (to_double n)"
  by (simp add: js_isNaN_def to_double_not_NaN)

lemma js_parseInt_rejected_iff:
  "js_isNaN (js_parseInt f) \<or> num_le0 (js_parseInt f) \<longleftrightarrow>
     parseInt_mathInt f = None \<or> (\<exists>n. parseInt_mathInt f = Some n \<and> n \<le> 0)"
  by (cases "parseInt_mathInt f")
    (simp_all add: js_parseInt_def js_isNaN_def num_le0_to_double to_double_not_NaN)

lemma num_add_exact:
  "\<bar>a + b\<bar> \<le> 2 ^ 53 \<Longrightarrow> num_add (Finite a) (Finite b) = Finite (a + b)"
  by (simp add: to_double_exact)

lemma max0_not_negative: "\<not> num_lt0 (max0 x)"
  by (cases x) simp_all

section \<open>Facts about the store primitives\<close>

lemma findIndex_Some_iff:
  "findIndex P xs = Some i \<Longrightarrow> i < length xs \<and> P (xs ! i) \<and> (\<forall>j<i. \<not> P (xs ! j))"
proof (induction xs arbitrary: i)
  case Nil
  then show ?case by simp
next
  case (Cons x xs)
  show ?case
  proof (cases "P x")
    case True
    with Cons.prems show ?thesis by simp
  next
    case False
    with Cons.prems obtain k where k: "findIndex P xs = Some k" "i = Suc k"
      by auto
    from Cons.IH [OF k(1)] False k(2) show ?thesis
      by (auto simp: less_Suc_eq_0_disj)
  qed
qed

lemma findIndex_None_iff: "findIndex P xs = None \<longleftrightarrow> (\<forall>x\<in>set xs. \<not> P x)"
  by (induction xs) auto

lemma find_findIndex: "find P xs = map_option (\<lambda>i. xs ! i) (findIndex P xs)"
  by (induction xs) (auto simp: option.map_comp comp_def)

lemma find_Some_findIndex:
  "find P xs = Some x \<Longrightarrow> \<exists>i. findIndex P xs = Some i \<and> xs ! i = x"
  by (auto simp: find_findIndex)

lemma findIndex_list_update:
  "i < length xs \<Longrightarrow> P y = P (xs ! i) \<Longrightarrow> findIndex P (xs[i := y]) = findIndex P xs"
proof (induction xs arbitrary: i)
  case Nil
  then show ?case by simp
next
  case (Cons x xs)
  then show ?case by (cases i) auto
qed

lemma inc_None: "findByIdAndUpdate_inc s uid n = (s', None) \<Longrightarrow> s' = s"
  by (auto simp: findByIdAndUpdate_inc_def Let_def split: option.splits)

lemma redeem_rejected_unchanged: "redeem s uid qr_data = (s', Rejected e) \<Longrightarrow> s' = s"
  unfolding redeem_def
  by (auto split: if_splits sum.splits option.splits prod.splits dest: inc_None)

lemma parse_qr_Nil: "parse_qr [] = Inl MissingFields"
  by (simp add: parse_qr_def parse_lines_def is_qrIdLine_def js_trim_def startsWith_def)

lemma parse_qr_Inr_nonempty: "parse_qr q = Inr p \<Longrightarrow> q \<noteq> []"
  using parse_qr_Nil by auto

lemma redeem_success:
  assumes "parse_qr q = Inr p"
    and "findOne_batch s (p_batchId p) = Some bi"
    and "find_code (batches s ! bi) (p_qrId p) = Some ci"
    and "\<not> isScanned (qrCodes (batches s ! bi) ! ci)"
    and "findIndex (\<lambda>c. cust_id c = uid) (customers s) = Some k"
  shows "redeem s uid q =
    (redeemed_store s k (p_points p) bi ci, Success (success_data p (credited s k (p_points p))))"
  using assms parse_qr_Inr_nonempty [OF assms(1)]
  by (simp add: redeem_def findByIdAndUpdate_inc_def redeemed_store_def credited_def Let_def)

lemma batches_redeemed_store:
  assumes "bi < length (batches s)" "ci < length (qrCodes (batches s ! bi))"
  shows "batches (redeemed_store s k n bi ci) =
    (batches s)[bi := (batches s ! bi)\<lparr>qrCodes :=
       (qrCodes (batches s ! bi))[ci := (qrCodes (batches s ! bi) ! ci)\<lparr>isScanned := True\<rparr>]\<rparr>]"
  using assms by (simp add: redeemed_store_def save_scanned_def Let_def)

lemma customers_redeemed_store:
  "customers (redeemed_store s k n bi ci) = (customers s)[k := credited s k n]"
  by (simp add: redeemed_store_def save_scanned_def Let_def)

lemma findOne_batch_redeemed:
  assumes "bi < length (batches s)" "ci < length (qrCodes (batches s ! bi))"
  shows "findOne_batch (redeemed_store s k n bi ci) bid = findOne_batch s bid"
  unfolding findOne_batch_def batches_redeemed_store [OF assms]
  using assms(1) by (intro findIndex_list_update) simp_all

lemma nth_batches_redeemed:
  assumes "bi < length (batches s)" "ci < length (qrCodes (batches s ! bi))"
  shows "qrCodes (batches (redeemed_store s k n bi ci) ! bi) =
     (qrCodes (batches s ! bi))[ci := (qrCodes (batches s ! bi) ! ci)\<lparr>isScanned := True\<rparr>]"
  using assms by (simp add: batches_redeemed_store)

lemma find_code_redeemed:
  assumes "bi < length (batches s)" "ci < length (qrCodes (batches s ! bi))"
  shows "find_code (batches (redeemed_store s k n bi ci) ! bi) qid = find_code (batches s ! bi) qid"
  unfolding find_code_def nth_batches_redeemed [OF assms]
  using assms(2) by (intro findIndex_list_update) simp_all

lemma isScanned_redeemed:
  assumes "bi < length (batches s)" "ci < length (qrCodes (batches s ! bi))"
  shows "isScanned (qrCodes (batches (redeemed_store s k n bi ci) ! bi) ! ci)"
  using assms by (simp add: nth_batches_redeemed)

lemma redeem_again:
  assumes "parse_qr q = Inr p"
    and "findOne_batch s (p_batchId p) = Some bi"
    and "find_code (batches s ! bi) (p_qrId p) = Some ci"
    and "isScanned (qrCodes (batches s ! bi) ! ci)"
  shows "redeem s uid q = (s, Rejected AlreadyRedeemed)"
  using assms parse_qr_Inr_nonempty [OF assms(1)]
  by (simp add: redeem_def)

lemma redeem_times_again:
  assumes "parse_qr q = Inr p"
    and "findOne_batch s (p_batchId p) = Some bi"
    and "find_code (batches s ! bi) (p_qrId p) = Some ci"
    and "isScanned (qrCodes (batches s ! bi) ! ci)"
  shows "redeem_times n s uid q = (s, replicate n (Rejected AlreadyRedeemed))"
  by (induction n) (simp_all add: redeem_again [OF assms])

lemma findById_redeemed:
  assumes "findIndex (\<lambda>c. cust_id c = uid) (customers s) = Some k"
  shows "findById (redeemed_store s k n bi ci) uid = Some (credited s k n)"
proof -
  from findIndex_Some_iff [OF assms]
  have k: "k < length (customers s)" "cust_id (customers s ! k) = uid"
    by auto
  have "findIndex (\<lambda>c. cust_id c = uid) ((customers s)[k := credited s k n]) = Some k"
    using k assms by (subst findIndex_list_update) (simp_all add: credited_def)
  with k show ?thesis
    by (simp add: findById_def find_findIndex customers_redeemed_store)
qed

text \<open>The example payload and store, evaluated.\<close>

lemma ex_parse: "parse_qr ex_payload = Inr ex_parsed"
  by code_simp

lemma ex_lookup_batch: "lookup_batch ex_store (p_batchId ex_parsed) = Some ex_batch"
  by code_simp

lemma ex_lookup_code: "lookup_code ex_batch (p_qrId ex_parsed) = Some ex_item"
  by code_simp

lemma ex_unscanned: "\<not> isScanned ex_item"
  by code_simp

lemma ex_findById: "findById ex_store ''u1'' = Some ex_customer"
  by code_simp

lemma resolve:
  assumes "lookup_batch s bid = Some b"
    and "lookup_code b qid = Some c"
    and "findById s uid = Some cu"
  obtains bi ci k where "findOne_batch s bid = Some bi" "batches s ! bi = b"
    "find_code (batches s ! bi) qid = Some ci" "qrCodes b ! ci = c"
    "findIndex (\<lambda>c. cust_id c = uid) (customers s) = Some k" "customers s ! k = cu"
    "bi < length (batches s)" "ci < length (qrCodes (batches s ! bi))"
proof -
  from assms(1) obtain bi
    where bi: "findOne_batch s bid = Some bi" "batches s ! bi = b"
    unfolding lookup_batch_def findOne_batch_def by (blast dest: find_Some_findIndex)
  from assms(2) bi(2) obtain ci
    where ci: "find_code (batches s ! bi) qid = Some ci" "qrCodes b ! ci = c"
    unfolding lookup_code_def find_code_def by (blast dest: find_Some_findIndex)
  from assms(3) obtain k
    where k: "findIndex (\<lambda>c. cust_id c = uid) (customers s) = Some k" "customers s ! k = cu"
    unfolding findById_def by (blast dest: find_Some_findIndex)
  have lt: "bi < length (batches s)" "ci < length (qrCodes (batches s ! bi))"
    using findIndex_Some_iff [OF bi(1) [unfolded findOne_batch_def]]
      findIndex_Some_iff [OF ci(1) [unfolded find_code_def]] by auto
  from bi ci k lt that show thesis by blast
qed

subsection \<open>Operations never un-scan a code\<close>

lemma item_le_refl: "item_le q q"
  by (simp add: item_le_def)

lemma batch_le_refl: "batch_le b b"
  by (simp add: batch_le_def list_all2_refl item_le_refl)

lemma store_le_refl: "store_le s s"
  by (simp add: store_le_def list_all2_refl batch_le_refl)

lemma item_le_trans: "item_le a b \<Longrightarrow> item_le b c \<Longrightarrow> item_le a c"
  by (simp add: item_le_def)

lemma batch_le_trans: "batch_le a b \<Longrightarrow> batch_le b c \<Longrightarrow> batch_le a c"
  unfolding batch_le_def
  by (auto elim: list_all2_trans [rotated] intro: item_le_trans)

lemma store_le_trans: "store_le a b \<Longrightarrow> store_le b c \<Longrightarrow> store_le a c"
  unfolding store_le_def
  by (auto elim: list_all2_trans [rotated] intro: batch_le_trans)

lemma list_all2_update_right:
  assumes "\<And>x. P x x" "i < length xs" "P (xs ! i) y"
  shows "list_all2 P xs (xs[i := y])"
  using assms by (auto simp: list_all2_conv_all_nth nth_list_update)

lemma store_le_save_scanned: "store_le s (save_scanned s bi ci)"
proof (cases "bi < length (batches s) \<and> ci < length (qrCodes (batches s ! bi))")
  case True
  let ?b = "batches s ! bi"
  have "list_all2 item_le (qrCodes ?b) ((qrCodes ?b)[ci := (qrCodes ?b ! ci)\<lparr>isScanned := True\<rparr>])"
    using True by (intro list_all2_update_right) (simp_all add: item_le_def)
  then have "batch_le ?b (?b\<lparr>qrCodes := (qrCodes ?b)[ci := (qrCodes ?b ! ci)\<lparr>isScanned := True\<rparr>]\<rparr>)"
    by (simp add: batch_le_def)
  with True show ?thesis
    by (simp add: store_le_def save_scanned_def Let_def list_all2_update_right batch_le_refl)
next
  case False
  then show ?thesis by (auto simp: save_scanned_def store_le_refl)
qed

lemma batches_inc: "batches (fst (findByIdAndUpdate_inc s uid n)) = batches s"
  by (simp add: findByIdAndUpdate_inc_def Let_def split: option.splits)

lemma store_le_batches_eq: "batches s' = batches s \<Longrightarrow> store_le s s'"
  by (simp add: store_le_def list_all2_refl batch_le_refl)

lemma store_le_cong_left: "batches a = batches b \<Longrightarrow> store_le b c \<Longrightarrow> store_le a c"
  by (simp add: store_le_def)

lemma store_le_redeem: "store_le s (fst (redeem s uid q))"
  unfolding redeem_def
  by (auto split: sum.splits option.splits prod.splits
      simp: store_le_refl findByIdAndUpdate_inc_def Let_def
      intro!: store_le_cong_left [OF _ store_le_save_scanned])

lemma batches_patch_points: "batches (fst (patch_points s u p operation)) = batches s"
  by (simp add: patch_points_def Let_def split: option.splits)

lemma store_le_apply_operation: "store_le s (apply_operation s x)"
  by (cases x) (simp_all add: store_le_redeem store_le_batches_eq batches_patch_points)

lemma store_le_run_operations: "store_le s (run_operations s xs)"
  unfolding run_operations_def
proof (induction xs arbitrary: s)
  case Nil
  show ?case by (simp add: store_le_refl)
next
  case (Cons x xs)
  show ?case
    using store_le_trans [OF store_le_apply_operation Cons.IH] by simp
qed

lemma store_leD:
  assumes "store_le s s'" "j < length (batches s)" "i < length (qrCodes (batches s ! j))"
  shows "j < length (batches s') \<and> i < length (qrCodes (batches s' ! j))
     \<and> batchId (batches s' ! j) = batchId (batches s ! j)
     \<and> isActive (batches s' ! j) = isActive (batches s ! j)
     \<and> qrId (qrCodes (batches s' ! j) ! i) = qrId (qrCodes (batches s ! j) ! i)
     \<and> (isScanned (qrCodes (batches s ! j) ! i) \<longrightarrow> isScanned (qrCodes (batches s' ! j) ! i))"
proof -
  from assms(1,2) have l: "length (batches s') = length (batches s)" and b: "batch_le (batches s ! j) (batches s' ! j)"
    by (auto simp: store_le_def list_all2_conv_all_nth)
  from b assms(3) have "length (qrCodes (batches s' ! j)) = length (qrCodes (batches s ! j))"
    and "item_le (qrCodes (batches s ! j) ! i) (qrCodes (batches s' ! j) ! i)"
    by (auto simp: batch_le_def list_all2_conv_all_nth)
  with l b assms show ?thesis
    by (simp add: batch_le_def item_le_def)
qed

lemma states_store_le: "s' \<in> set (states s xs) \<Longrightarrow> store_le s s'"
proof (induction xs arbitrary: s)
  case Nil
  then show ?case by (simp add: store_le_refl)
next
  case (Cons x xs)
  then show ?case
    by (auto simp: store_le_refl intro: store_le_trans [OF store_le_apply_operation])
qed

lemma flag_history_shape:
  assumes "j < length (batches s)" "i < length (qrCodes (batches s ! j))"
  shows "\<exists>a b. map (\<lambda>s'. isScanned (qrCodes (batches s' ! j) ! i)) (states s xs)
           = replicate a False @ replicate b True"
  using assms
proof (induction xs arbitrary: s)
  case Nil
  show ?case
  proof (cases "isScanned (qrCodes (batches s ! j) ! i)")
    case True
    then have "map (\<lambda>s'. isScanned (qrCodes (batches s' ! j) ! i)) (states s []) = replicate 0 False @ replicate 1 True"
      by simp
    then show ?thesis by blast
  next
    case False
    then have "map (\<lambda>s'. isScanned (qrCodes (batches s' ! j) ! i)) (states s []) = replicate 1 False @ replicate 0 True"
      by simp
    then show ?thesis by blast
  qed
next
  case (Cons x xs)
  let ?f = "\<lambda>s'. isScanned (qrCodes (batches s' ! j) ! i)"
  let ?s1 = "apply_operation s x"
  from store_leD [OF store_le_apply_operation Cons.prems, of x]
  have in1: "j < length (batches ?s1)" "i < length (qrCodes (batches ?s1 ! j))"
    by auto
  from Cons.IH [OF in1] obtain a b where ab: "map ?f (states ?s1 xs) = replicate a False @ replicate b True"
    by blast
  show ?case
  proof (cases "?f s")
    case False
    then have "map ?f (states s (x # xs)) = replicate (Suc a) False @ replicate b True"
      using ab by simp
    then show ?thesis by blast
  next
    case True
    have "\<forall>s'\<in>set (states ?s1 xs). ?f s'"
    proof
      fix s' assume "s' \<in> set (states ?s1 xs)"
      then have "store_le s s'"
        by (auto intro: store_le_trans [OF store_le_apply_operation] dest: states_store_le)
      from store_leD [OF this Cons.prems] True show "?f s'" by simp
    qed
    then have "map ?f (states ?s1 xs) = replicate (length (states ?s1 xs)) True"
      by (simp add: map_replicate_const [symmetric] cong: map_cong)
    with True have "map ?f (states s (x # xs)) = replicate 0 False @ replicate (Suc (length (states ?s1 xs))) True"
      by simp
    then show ?thesis by blast
  qed
qed


lemma states_nonempty: "states s xs \<noteq> []"
  by (cases xs) simp_all

lemma last_states: "last (states s xs) = run_operations s xs"
  by (induction xs arbitrary: s) (simp_all add: run_operations_def states_nonempty)

lemma store_le_inactive:
  assumes "store_le s s'"
    and "\<forall>b\<in>set (batches s). batchId b = bid \<longrightarrow> \<not> isActive b"
  shows "\<forall>b\<in>set (batches s'). batchId b = bid \<longrightarrow> \<not> isActive b"
proof
  fix b' assume "b' \<in> set (batches s')"
  then obtain j where j: "j < length (batches s')" "b' = batches s' ! j"
    by (auto simp: in_set_conv_nth)
  with assms(1) have "j < length (batches s)" "batch_le (batches s ! j) b'"
    by (auto simp: store_le_def list_all2_conv_all_nth)
  with assms(2) show "batchId b' = bid \<longrightarrow> \<not> isActive b'"
    by (auto simp: batch_le_def)
qed

subsection \<open>The handler as three steps\<close>

text \<open>Running one request's steps back to back is the sequential handler.\<close>

lemma steps_redeem:
  "(case step s (Received uid q) of (s1, r1) \<Rightarrow>
      case step s1 r1 of (s2, r2) \<Rightarrow> step s2 r2)
   = (fst (redeem s uid q), Responded (snd (redeem s uid q)))"
  by (simp add: redeem_def split: sum.splits option.splits prod.splits)

text \<open>The order also holds along every interleaving of requests.\<close>

lemma store_le_step: "store_le s (fst (step s r))"
proof (cases r)
  case (Received uid q)
  then show ?thesis by (simp add: store_le_refl)
next
  case (AwaitIncrement uid p bi ci)
  have "batches (fst (step s (AwaitIncrement uid p bi ci))) = batches s"
    using batches_inc [of s uid "p_points p"]
    by (cases "findByIdAndUpdate_inc s uid (p_points p)") (auto split: option.splits)
  with AwaitIncrement show ?thesis by (simp add: store_le_batches_eq)
next
  case (AwaitSave p bi ci c)
  then show ?thesis by (simp add: store_le_save_scanned)
next
  case (Responded x)
  then show ?thesis by (simp add: store_le_refl)
qed

lemma store_le_run_schedule: "store_le s (fst (run_schedule s rs sched))"
proof (induction sched arbitrary: s rs)
  case Nil
  show ?case by (simp add: store_le_refl)
next
  case (Cons i sched)
  show ?case
  proof (cases "i < length rs")
    case True
    obtain s' r' where st: "step s (rs ! i) = (s', r')" by (cases "step s (rs ! i)")
    with store_le_step [of s "rs ! i"] have "store_le s s'" by simp
    from store_le_trans [OF this Cons.IH [of s' "rs[i := r']"]] True st show ?thesis
      by simp
  next
    case False
    with Cons.IH [of s rs] show ?thesis by simp
  qed
qed

section \<open>Facts about the string primitives\<close>

lemma js_split_no_sep: "sep \<notin> set a \<Longrightarrow> js_split sep a = [a]"
  by (induction a) auto

lemma js_split_first: "sep \<notin> set a \<Longrightarrow> js_split sep (a @ sep # rest) = a # js_split sep rest"
  by (induction a) auto


lemma js_split_second:
  assumes "sep \<notin> set a" "sep \<notin> set b"
  shows "js_index (js_split sep (a @ sep # b @ sep # c)) 1 = Some b"
    and "js_index (js_split sep (a @ sep # b)) 1 = Some b"
  using assms by (simp_all add: js_split_first js_split_no_sep js_index_def)

lemma isspace_not_colon: "js_isspace c \<Longrightarrow> c \<noteq> CHR '':''"
  by (auto simp: js_isspace_def)

lemma trim_end_keep:
  assumes "L \<noteq> []" "\<not> js_isspace (last L)"
  shows "rev (dropWhile js_isspace (rev (L @ rest))) = L @ rev (dropWhile js_isspace (rev rest))"
proof (cases "\<forall>c\<in>set rest. js_isspace c")
  case True
  then have "dropWhile js_isspace (rev rest @ rev L) = dropWhile js_isspace (rev L)"
    by (intro dropWhile_append2) simp
  moreover have "dropWhile js_isspace (rev L) = rev L"
    using assms by (cases L rule: rev_cases) simp_all
  moreover have "dropWhile js_isspace (rev rest) = []"
    using True by simp
  ultimately show ?thesis by simp
next
  case False
  then obtain x where "x \<in> set (rev rest)" "\<not> js_isspace x" by auto
  then have "dropWhile js_isspace (rev rest @ rev L) = dropWhile js_isspace (rev rest) @ rev L"
    by (rule dropWhile_append1)
  then show ?thesis by simp
qed

lemma js_trim_label:
  assumes "\<forall>c\<in>set ws. js_isspace c" "L \<noteq> []" "\<not> js_isspace (hd L)" "\<not> js_isspace (last L)"
  shows "js_trim (ws @ L @ rest) = L @ rev (dropWhile js_isspace (rev rest))"
proof -
  have "dropWhile js_isspace (ws @ L @ rest) = dropWhile js_isspace (L @ rest)"
    using assms(1) by (intro dropWhile_append2) simp
  also have "\<dots> = L @ rest"
    using assms(2,3) by (cases L) simp_all
  finally have "js_trim (ws @ L @ rest) = rev (dropWhile js_isspace (rev (L @ rest)))"
    by (simp only: js_trim_def)
  also have "\<dots> = L @ rev (dropWhile js_isspace (rev rest))"
    using assms(2,4) by (rule trim_end_keep)
  finally show ?thesis .
qed

lemma js_trim_value:
  assumes "\<forall>c\<in>set w1. js_isspace c" "\<forall>c\<in>set w2. js_isspace c"
    and "v = [] \<or> \<not> js_isspace (hd v) \<and> \<not> js_isspace (last v)"
  shows "js_trim (w1 @ v @ w2) = v"
proof (cases "v = []")
  case True
  from assms(1,2) have e: "dropWhile js_isspace (w1 @ w2) = []"
    by (simp only: dropWhile_eq_Nil_conv) auto
  have "js_trim (w1 @ w2) = rev (dropWhile js_isspace (rev []))"
    by (simp only: js_trim_def e)
  with True show ?thesis by simp
next
  case False
  with assms(3) have "\<not> js_isspace (hd v)" "\<not> js_isspace (last v)" by auto
  from js_trim_label [OF assms(1) False this, of w2] assms(2) show ?thesis
    by simp
qed

lemma js_trim_decompose:
  "\<exists>ws tl. (\<forall>c\<in>set ws. js_isspace c) \<and> s = ws @ js_trim s @ tl"
proof -
  let ?d = "dropWhile js_isspace s"
  have "s = takeWhile js_isspace s @ ?d" by simp
  moreover have "?d = js_trim s @ rev (takeWhile js_isspace (rev ?d))"
  proof -
    have "rev (dropWhile js_isspace (rev ?d)) @ rev (takeWhile js_isspace (rev ?d))
        = rev (takeWhile js_isspace (rev ?d) @ dropWhile js_isspace (rev ?d))"
      by (simp only: rev_append)
    also have "\<dots> = rev (rev ?d)"
      by (simp only: takeWhile_dropWhile_id)
    also have "\<dots> = ?d" by simp
    finally show ?thesis by (simp only: js_trim_def)
  qed
  moreover have "\<forall>c\<in>set (takeWhile js_isspace s). js_isspace c"
    by (auto dest: set_takeWhileD)
  ultimately show ?thesis by metis
qed

lemma label_match_iff:
  assumes "L \<noteq> []" "\<not> js_isspace (hd L)" "\<not> js_isspace (last L)"
  shows "startsWith (js_trim l) L \<longleftrightarrow> (\<exists>ws rest. (\<forall>c\<in>set ws. js_isspace c) \<and> l = ws @ L @ rest)"
proof
  assume "startsWith (js_trim l) L"
  then have t: "js_trim l = L @ drop (length L) (js_trim l)"
    unfolding startsWith_def by (metis append_take_drop_id)
  from js_trim_decompose [of l] obtain ws tl
    where "\<forall>c\<in>set ws. js_isspace c" "l = ws @ js_trim l @ tl" by blast
  with t have "l = ws @ L @ (drop (length L) (js_trim l) @ tl)"
    by (metis append.assoc)
  with \<open>\<forall>c\<in>set ws. js_isspace c\<close> show "\<exists>ws rest. (\<forall>c\<in>set ws. js_isspace c) \<and> l = ws @ L @ rest"
    by blast
next
  assume "\<exists>ws rest. (\<forall>c\<in>set ws. js_isspace c) \<and> l = ws @ L @ rest"
  then obtain ws rest where "\<forall>c\<in>set ws. js_isspace c" "l = ws @ L @ rest" by blast
  with js_trim_label [OF this(1) assms, of rest] show "startsWith (js_trim l) L"
    by (simp add: startsWith_def)
qed

lemma is_qrIdLine_iff:
  "is_qrIdLine l \<longleftrightarrow> (\<exists>ws rest. (\<forall>c\<in>set ws. js_isspace c) \<and> l = ws @ ''QR ID:'' @ rest)"
  unfolding is_qrIdLine_def by (rule label_match_iff) (simp_all add: js_isspace_def)

lemma is_batchIdLine_iff:
  "is_batchIdLine l \<longleftrightarrow> (\<exists>ws rest. (\<forall>c\<in>set ws. js_isspace c) \<and> l = ws @ ''Batch ID:'' @ rest)"
  unfolding is_batchIdLine_def by (rule label_match_iff) (simp_all add: js_isspace_def)

lemma is_pointsLine_iff:
  "is_pointsLine l \<longleftrightarrow> (\<exists>ws rest. (\<forall>c\<in>set ws. js_isspace c) \<and> l = ws @ ''Points:'' @ rest)"
  unfolding is_pointsLine_def by (rule label_match_iff) (simp_all add: js_isspace_def)




lemma find_first_filter: "find P xs = (case filter P xs of [] \<Rightarrow> None | x # _ \<Rightarrow> Some x)"
  by (induction xs) auto

lemma find_permuted:
  assumes "mset ys = mset xs" "length (filter P xs) \<le> 1"
  shows "find P ys = find P xs"
proof -
  from assms(1) have m: "mset (filter P ys) = mset (filter P xs)" by (simp only: mset_filter)
  have "filter P ys = filter P xs"
  proof (cases "filter P xs")
    case Nil
    with m have "mset (filter P ys) = {#}" by (simp del: mset_filter)
    then show ?thesis using Nil by (simp only: mset_zero_iff)
  next
    case (Cons x rest)
    with assms(2) have "filter P xs = [x]" by simp
    with m have "mset (filter P ys) = {#x#}" "filter P xs = [x]" by (simp_all del: mset_filter)
    then show ?thesis by (simp only: mset_single_iff)
  qed
  then show ?thesis by (simp add: find_first_filter)
qed

lemma find_append_Some: "find P xs = Some x \<Longrightarrow> find P (xs @ ys) = Some x"
  by (induction xs) (auto split: if_splits)

lemma parse_lines_Inr_iff:
  "parse_lines ls = Inr r \<longleftrightarrow>
     (\<exists>ql bl pl f. find is_qrIdLine ls = Some ql \<and> find is_batchIdLine ls = Some bl
        \<and> find is_pointsLine ls = Some pl
        \<and> field_value ql = Inr (p_qrId r) \<and> field_value bl = Inr (p_batchId r)
        \<and> field_value pl = Inr f \<and> js_parseInt f = p_points r
        \<and> \<not> js_isNaN (p_points r) \<and> \<not> num_le0 (p_points r))"
  unfolding parse_lines_def
  by (cases r) (auto simp: Let_def split: option.splits sum.splits)

lemma parse_lines_finds:
  assumes "find is_qrIdLine ls' = find is_qrIdLine ls"
    and "find is_batchIdLine ls' = find is_batchIdLine ls"
    and "find is_pointsLine ls' = find is_pointsLine ls"
  shows "parse_lines ls' = parse_lines ls"
  by (simp add: parse_lines_def assms)

lemma parse_lines_append:
  assumes "parse_lines ls = Inr r"
  shows "parse_lines (ls @ extra) = Inr r"
proof -
  from assms obtain ql bl pl
    where "find is_qrIdLine ls = Some ql" "find is_batchIdLine ls = Some bl"
      "find is_pointsLine ls = Some pl"
    unfolding parse_lines_Inr_iff by blast
  then have "parse_lines (ls @ extra) = parse_lines ls"
    by (intro parse_lines_finds) (simp_all add: find_append_Some)
  with assms show ?thesis by simp
qed

lemma parse_lines_permuted:
  assumes "mset ls' = mset ls"
    and "length (filter is_qrIdLine ls) \<le> 1"
    and "length (filter is_batchIdLine ls) \<le> 1"
    and "length (filter is_pointsLine ls) \<le> 1"
  shows "parse_lines ls' = parse_lines ls"
  using assms by (intro parse_lines_finds find_permuted)

lemma field_value_trimmed:
  assumes "\<forall>c\<in>set w1. js_isspace c" "\<forall>c\<in>set w2. js_isspace c" "\<forall>c\<in>set w3. js_isspace c"
    and "CHR '':'' \<notin> set lab" "CHR '':'' \<notin> set v"
    and "v = [] \<or> \<not> js_isspace (hd v) \<and> \<not> js_isspace (last v)"
  shows "field_value (w1 @ lab @ CHR '':'' # w2 @ v @ w3) = Inr v"
proof -
  have 1: "CHR '':'' \<notin> set (w1 @ lab)" "CHR '':'' \<notin> set (w2 @ v @ w3)"
    using assms by (auto dest: isspace_not_colon)
  have "js_index (js_split CHR '':'' ((w1 @ lab) @ CHR '':'' # (w2 @ v @ w3))) 1 = Some (w2 @ v @ w3)"
    using 1 by (rule js_split_second(2))
  then show ?thesis
    by (simp add: field_value_def js_trim_value [OF assms(2,3,6)])
qed

lemma field_value_truncated:
  assumes "CHR '':'' \<notin> set a" "CHR '':'' \<notin> set b"
  shows "field_value (a @ CHR '':'' # b @ CHR '':'' # c) = Inr (js_trim b)"
  using js_split_second(1) [OF assms, of c] by (simp add: field_value_def)

lemma js_split_join:
  assumes "ls \<noteq> []" "\<forall>l\<in>set ls. sep \<notin> set l"
  shows "js_split sep (js_join sep ls) = ls"
  using assms
proof (induction sep ls rule: js_join.induct)
  case (1 sep)
  then show ?case by simp
next
  case (2 sep l)
  then show ?case by (simp add: js_split_no_sep)
next
  case (3 sep l v va)
  then show ?case by (simp add: js_split_first)
qed

lemma parse_qr_join:
  assumes "ls \<noteq> []" "\<forall>l\<in>set ls. CHR 0x0A \<notin> set l"
  shows "parse_qr (js_join CHR 0x0A ls) = parse_lines ls"
  by (simp add: parse_qr_def js_split_join [OF assms])





lemma find_append_found: "\<exists>x\<in>set xs. P x \<Longrightarrow> find P (xs @ ys) = find P xs"
  by (induction xs) auto

lemma parse_lines_append_found:
  assumes "\<exists>l\<in>set ls. is_qrIdLine l" "\<exists>l\<in>set ls. is_batchIdLine l" "\<exists>l\<in>set ls. is_pointsLine l"
  shows "parse_lines (ls @ extra) = parse_lines ls"
  using assms by (intro parse_lines_finds find_append_found)

lemma parse_qr_payload_points:
  assumes "parse_qr q = Inr p"
  shows "\<exists>v. payload_points q = Some v \<and> 0 < v \<and> p_points p = to_double v"
proof -
  from assms obtain pl f where f: "find is_pointsLine (js_split CHR 0x0A q) = Some pl"
    "field_value pl = Inr f" "js_parseInt f = p_points p"
    "\<not> js_isNaN (p_points p)" "\<not> num_le0 (p_points p)"
    unfolding parse_qr_def parse_lines_Inr_iff by blast
  from f(3,4,5) have "\<not> (js_isNaN (js_parseInt f) \<or> num_le0 (js_parseInt f))" by simp
  then obtain v where v: "parseInt_mathInt f = Some v" "0 < v"
    unfolding js_parseInt_rejected_iff by (cases "parseInt_mathInt f") auto
  with f(3) have "p_points p = to_double v" by (simp add: js_parseInt_def)
  moreover from f(1,2) v(1) have "payload_points q = Some v" by (simp add: payload_points_def)
  ultimately show ?thesis using v(2) by blast
qed

lemma credit_exact:
  assumes "0 < v" "v \<le> 2 ^ 53" "\<bar>old + v\<bar> \<le> 2 ^ 53"
  shows "to_double v = Finite v" "num_add (Finite old) (to_double v) = Finite (old + v)"
proof -
  from assms(1,2) have "\<bar>v\<bar> \<le> 2 ^ 53" by simp
  then show "to_double v = Finite v" by (rule to_double_exact)
  with assms(3) show "num_add (Finite old) (to_double v) = Finite (old + v)"
    by (simp add: to_double_exact)
qed

lemma find_first_match: "find P ls = Some l \<longleftrightarrow> first_match P ls l"
proof (induction ls)
  case Nil
  show ?case by (simp add: first_match_def)
next
  case (Cons x xs)
  show ?case
  proof (cases "P x")
    case True
    have "first_match P (x # xs) l \<longleftrightarrow> l = x"
    proof
      assume "first_match P (x # xs) l"
      then obtain pre post where d: "x # xs = pre @ l # post" "P l" "list_all (\<lambda>y. \<not> P y) pre"
        unfolding first_match_def by blast
      show "l = x"
      proof (cases pre)
        case Nil
        with d(1) show ?thesis by simp
      next
        case (Cons y ys)
        with d(1,3) True show ?thesis by simp
      qed
    next
      assume "l = x"
      with True have "x # xs = [] @ l # xs \<and> P l \<and> list_all (\<lambda>y. \<not> P y) []" by simp
      then show "first_match P (x # xs) l" unfolding first_match_def by blast
    qed
    with True show ?thesis by auto
  next
    case False
    have "first_match P (x # xs) l \<longleftrightarrow> first_match P xs l"
    proof
      assume "first_match P (x # xs) l"
      then obtain pre post where d: "x # xs = pre @ l # post" "P l" "list_all (\<lambda>y. \<not> P y) pre"
        unfolding first_match_def by blast
      show "first_match P xs l"
      proof (cases pre)
        case Nil
        with d(1,2) False show ?thesis by simp
      next
        case (Cons y ys)
        with d have "xs = ys @ l # post \<and> P l \<and> list_all (\<lambda>y. \<not> P y) ys" by simp
        then show ?thesis unfolding first_match_def by blast
      qed
    next
      assume "first_match P xs l"
      then obtain pre post where d: "xs = pre @ l # post" "P l" "list_all (\<lambda>y. \<not> P y) pre"
        unfolding first_match_def by blast
      with False have "x # xs = (x # pre) @ l # post \<and> P l \<and> list_all (\<lambda>y. \<not> P y) (x # pre)"
        by simp
      then show "first_match P (x # xs) l" unfolding first_match_def by blast
    qed
    with False Cons.IH show ?thesis by simp
  qed
qed

lemma first_matchI:
  "ls = pre @ l # post \<Longrightarrow> P l \<Longrightarrow> list_all (\<lambda>x. \<not> P x) pre \<Longrightarrow> first_match P ls l"
  unfolding first_match_def by blast

lemma parse_qr_Inr_first_match:
  "parse_qr q = Inr r \<longleftrightarrow>
     (\<exists>ql bl pl f. first_match is_qrIdLine (js_split CHR 0x0A q) ql
        \<and> first_match is_batchIdLine (js_split CHR 0x0A q) bl
        \<and> first_match is_pointsLine (js_split CHR 0x0A q) pl
        \<and> field_value ql = Inr (p_qrId r) \<and> field_value bl = Inr (p_batchId r)
        \<and> field_value pl = Inr f \<and> js_parseInt f = p_points r
        \<and> \<not> js_isNaN (p_points r) \<and> \<not> num_le0 (p_points r))"
  unfolding parse_qr_def parse_lines_Inr_iff find_first_match ..

section \<open>Redemption is not idempotent\<close>

text \<open>
  Claim C1, as stated: the first run succeeds, every later run is rejected as already
  redeemed, and the balance is increased by the payload's point value exactly once. The
  point value is a double by the time it is credited: for the payload
  \<open>Points: 9007199254740993\<close> and a balance of 30 the first run succeeds, the second is
  rejected, and the balance has grown by 9007199254740992.
\<close>

theorem rounded_credit_twice_counterexample:
  "payload_points ex_big_payload = Some 9007199254740993
   \<and> balance ex_store ''u1'' = Some (Finite 30)
   \<and> snd (redeem_times 2 ex_store ''u1'' ex_big_payload)
       = [Success \<lparr>pointsEarned = Finite 9007199254740992, totalPoints = Finite 9007199254741022,
                   data_qrId = ''A1'', data_batchId = ''B1'', customer_id = ''u1'',
                   customer_name = ''Ann'', customer_username = ''ann'',
                   customer_points = Finite 9007199254741022\<rparr>,
          Rejected AlreadyRedeemed]
   \<and> balance (fst (redeem_times 2 ex_store ''u1'' ex_big_payload)) ''u1''
       = Some (Finite 9007199254741022)
   \<and> (9007199254741022 :: int) \<noteq> 30 + 9007199254740993"
  by code_simp

text \<open>
  Claim C1, amended: a well-formed payload that resolves to an unscanned code of an
  active batch, submitted by an existing customer \<open>1 + n\<close> times in a row, succeeds the
  first time and is rejected as already redeemed each of the \<open>n\<close> later times; after
  all the runs the balance is the old balance plus the double nearest to the payload's
  point value, added once in double arithmetic. When the old balance is an integer and
  neither the point value nor the sum exceeds \<open>2^53\<close> in magnitude, that is exactly the
  old balance plus the payload's point value.
\<close>

theorem redeem_twice:
  assumes "parse_qr q = Inr p"
    and "lookup_batch s (p_batchId p) = Some b"
    and "lookup_code b (p_qrId p) = Some c"
    and "\<not> isScanned c"
    and "findById s uid = Some cu"
  shows "\<exists>s' d v. redeem_times (Suc n) s uid q =
              (s', Success d # replicate n (Rejected AlreadyRedeemed))
            \<and> payload_points q = Some v
            \<and> pointsEarned d = to_double v
            \<and> balance s' uid = Some (num_add (points cu) (to_double v))
            \<and> (\<forall>old. points cu = Finite old \<and> v \<le> 2 ^ 53 \<and> \<bar>old + v\<bar> \<le> 2 ^ 53 \<longrightarrow>
                  pointsEarned d = Finite v \<and> balance s' uid = Some (Finite (old + v)))"
proof -
  from assms(2) obtain bi
    where bi: "findOne_batch s (p_batchId p) = Some bi" "batches s ! bi = b"
    unfolding lookup_batch_def findOne_batch_def by (blast dest: find_Some_findIndex)
  from assms(3) bi(2) obtain ci
    where ci: "find_code (batches s ! bi) (p_qrId p) = Some ci" "qrCodes b ! ci = c"
    unfolding lookup_code_def find_code_def by (blast dest: find_Some_findIndex)
  from assms(5) obtain k
    where k: "findIndex (\<lambda>c. cust_id c = uid) (customers s) = Some k" "customers s ! k = cu"
    unfolding findById_def by (blast dest: find_Some_findIndex)
  have lt: "bi < length (batches s)" "ci < length (qrCodes (batches s ! bi))"
    using findIndex_Some_iff [OF bi(1) [unfolded findOne_batch_def]]
      findIndex_Some_iff [OF ci(1) [unfolded find_code_def]] by auto
  from parse_qr_payload_points [OF assms(1)] obtain v
    where v: "payload_points q = Some v" "0 < v" "p_points p = to_double v" by blast
  let ?s' = "redeemed_store s k (p_points p) bi ci"
  let ?d = "success_data p (credited s k (p_points p))"
  have first: "redeem s uid q = (?s', Success ?d)"
    using assms(1) bi(1) ci(1) _ k(1) by (rule redeem_success) (simp add: bi ci assms)
  have rest: "redeem_times n ?s' uid q = (?s', replicate n (Rejected AlreadyRedeemed))"
    using assms(1)
  proof (rule redeem_times_again)
    show "findOne_batch ?s' (p_batchId p) = Some bi"
      by (simp add: findOne_batch_redeemed [OF lt] bi)
    show "find_code (batches ?s' ! bi) (p_qrId p) = Some ci"
      by (simp add: find_code_redeemed [OF lt] ci)
    show "isScanned (qrCodes (batches ?s' ! bi) ! ci)"
      by (rule isScanned_redeemed [OF lt])
  qed
  have run: "redeem_times (Suc n) s uid q =
      (?s', Success ?d # replicate n (Rejected AlreadyRedeemed))"
    by (simp add: first rest)
  have bal: "balance ?s' uid = Some (num_add (points cu) (to_double v))"
    by (simp add: balance_def findById_redeemed [OF k(1)] credited_def k(2) v(3))
  have earned: "pointsEarned ?d = to_double v"
    by (simp add: success_data_def v(3))
  have exact: "\<forall>old. points cu = Finite old \<and> v \<le> 2 ^ 53 \<and> \<bar>old + v\<bar> \<le> 2 ^ 53 \<longrightarrow>
      pointsEarned ?d = Finite v \<and> balance ?s' uid = Some (Finite (old + v))"
  proof (intro allI impI)
    fix old
    assume a: "points cu = Finite old \<and> v \<le> 2 ^ 53 \<and> \<bar>old + v\<bar> \<le> 2 ^ 53"
    then have b: "v \<le> 2 ^ 53" "\<bar>old + v\<bar> \<le> 2 ^ 53" by blast+
    have "to_double v = Finite v" "num_add (Finite old) (to_double v) = Finite (old + v)"
      using credit_exact [OF v(2) b] by blast+
    with a earned bal
    show "pointsEarned ?d = Finite v \<and> balance ?s' uid = Some (Finite (old + v))"
      by simp
  qed
  from run v(1) earned bal exact show ?thesis by blast
qed

theorem redeem_twice_witness:
  "\<exists>s' d. redeem_times (Suc 2) ex_store ''u1'' ex_payload =
             (s', Success d # replicate 2 (Rejected AlreadyRedeemed))
           \<and> pointsEarned d = Finite 50 \<and> balance s' ''u1'' = Some (Finite 80)"
proof -
  from redeem_twice [OF ex_parse ex_lookup_batch ex_lookup_code ex_unscanned ex_findById, of 2]
  obtain s' d v where r: "redeem_times (Suc 2) ex_store ''u1'' ex_payload =
             (s', Success d # replicate 2 (Rejected AlreadyRedeemed))"
    and v: "payload_points ex_payload = Some v"
    and ex: "\<forall>old. points ex_customer = Finite old \<and> v \<le> 2 ^ 53 \<and> \<bar>old + v\<bar> \<le> 2 ^ 53 \<longrightarrow>
                  pointsEarned d = Finite v \<and> balance s' ''u1'' = Some (Finite (old + v))"
    by blast
  have "payload_points ex_payload = Some 50" by code_simp
  with v have v50: "v = 50" by simp
  have "points ex_customer = Finite 30 \<and> (50::int) \<le> 2 ^ 53 \<and> \<bar>30 + 50 :: int\<bar> \<le> 2 ^ 53"
    by (simp add: ex_customer_def)
  with ex v50 have "pointsEarned d = Finite 50 \<and> balance s' ''u1'' = Some (Finite (30 + 50))"
    by blast
  with r show ?thesis by auto
qed

section \<open>Rejections leave the store as it was\<close>

text \<open>
  Claim C3. Whenever the handler answers with a rejection (missing or malformed
  payload, batch not found, code not found, already redeemed, customer not found), the
  store after the call is the store before it: no balance and no \<open>isScanned\<close> flag has
  changed. In particular an unknown customer leaves the code unmarked.
\<close>

theorem rejection_leaves_store:
  "redeem s uid qr_data = (s', Rejected e) \<Longrightarrow> s' = s"
  by (rule redeem_rejected_unchanged)

theorem rejection_leaves_store_witness:
  "redeem ex_store ''nobody'' ex_payload = (ex_store, Rejected CustomerNotFound)"
proof -
  have r: "snd (redeem ex_store ''nobody'' ex_payload) = Rejected CustomerNotFound"
    by code_simp
  then have "redeem ex_store ''nobody'' ex_payload =
      (fst (redeem ex_store ''nobody'' ex_payload), Rejected CustomerNotFound)"
    by (metis prod.collapse)
  from rejection_leaves_store [OF this] r show ?thesis
    by (metis prod.collapse)
qed

section \<open>Concurrent redemptions of one code\<close>

text \<open>
  Claim C2. The claim asks that concurrent attempts on one code give one success, and
  that the check and the mark are one conditional update. The handler reads the batch
  (\<open>findOne\<close>), credits the customer (\<open>findByIdAndUpdate\<close>) and marks the code (\<open>save\<close>)
  in three separate store calls. In the schedule below two requests with the same
  payload both read the batch before either saves: both succeed and the balance goes
  from 30 to 130 for one code worth 50.
\<close>

theorem concurrent_double_credit:
  "run_schedule ex_store [Received ''u1'' ex_payload, Received ''u1'' ex_payload] [0, 1, 0, 1, 0, 1]
     = (\<lparr>customers = [ex_customer\<lparr>points := Finite 130\<rparr>],
         batches = [ex_batch\<lparr>qrCodes := [ex_item\<lparr>isScanned := True\<rparr>]\<rparr>]\<rparr>,
        [Responded (Success (success_data ex_parsed (ex_customer\<lparr>points := Finite 80\<rparr>))),
         Responded (Success (success_data ex_parsed (ex_customer\<lparr>points := Finite 130\<rparr>)))])
   \<and> balance ex_store ''u1'' = Some (Finite 30)"
  by code_simp

section \<open>Success postcondition\<close>

text \<open>
  Claim C4, as stated: on success the balance increases by exactly the payload's point
  value and the response carries that value as the points earned. For the payload
  \<open>Points: 9007199254740993\<close> and a balance of 30 the response carries 9007199254740992
  as points earned and the new balance is 9007199254741022.
\<close>

theorem rounded_credit_counterexample:
  "payload_points ex_big_payload = Some 9007199254740993
   \<and> balance ex_store ''u1'' = Some (Finite 30)
   \<and> snd (redeem ex_store ''u1'' ex_big_payload)
       = Success \<lparr>pointsEarned = Finite 9007199254740992, totalPoints = Finite 9007199254741022,
                  data_qrId = ''A1'', data_batchId = ''B1'', customer_id = ''u1'',
                  customer_name = ''Ann'', customer_username = ''ann'',
                  customer_points = Finite 9007199254741022\<rparr>
   \<and> balance (fst (redeem ex_store ''u1'' ex_big_payload)) ''u1''
       = Some (Finite 9007199254741022)
   \<and> (9007199254740992 :: int) \<noteq> 9007199254740993
   \<and> (9007199254741022 :: int) \<noteq> 30 + 9007199254740993"
  by code_simp

text \<open>
  Claim C4, amended: a well-formed payload that resolves to an unscanned code of an
  active batch, submitted by an existing customer, succeeds; the response carries the
  double nearest to the payload's point value as points earned, the new balance as
  total, and the resolved code and batch ids; in the store afterwards the balance is the
  old one plus that double, in double arithmetic, and the same lookup finds the code
  with \<open>isScanned\<close> set. When the old balance is an integer and neither the point value
  nor the sum exceeds \<open>2^53\<close> in magnitude, the points earned are exactly the payload's
  point value and the balance grows by exactly that value.
\<close>

theorem redeem_success_postcondition:
  assumes "parse_qr q = Inr p"
    and "lookup_batch s (p_batchId p) = Some b"
    and "lookup_code b (p_qrId p) = Some c"
    and "\<not> isScanned c"
    and "findById s uid = Some cu"
  shows "\<exists>s' d b' v. redeem s uid q = (s', Success d)
      \<and> payload_points q = Some v
      \<and> pointsEarned d = to_double v
      \<and> totalPoints d = num_add (points cu) (to_double v)
      \<and> data_qrId d = qrId c \<and> data_batchId d = batchId b
      \<and> balance s' uid = Some (num_add (points cu) (to_double v))
      \<and> lookup_batch s' (p_batchId p) = Some b'
      \<and> lookup_code b' (p_qrId p) = Some (c\<lparr>isScanned := True\<rparr>)
      \<and> (\<forall>old. points cu = Finite old \<and> v \<le> 2 ^ 53 \<and> \<bar>old + v\<bar> \<le> 2 ^ 53 \<longrightarrow>
             pointsEarned d = Finite v \<and> totalPoints d = Finite (old + v)
             \<and> balance s' uid = Some (Finite (old + v)))"
proof -
  from assms(2,3,5) obtain bi ci k
    where bi: "findOne_batch s (p_batchId p) = Some bi" "batches s ! bi = b"
      and ci: "find_code (batches s ! bi) (p_qrId p) = Some ci" "qrCodes b ! ci = c"
      and k: "findIndex (\<lambda>c. cust_id c = uid) (customers s) = Some k" "customers s ! k = cu"
      and lt: "bi < length (batches s)" "ci < length (qrCodes (batches s ! bi))"
    by (rule resolve)
  from parse_qr_payload_points [OF assms(1)] obtain v
    where v: "payload_points q = Some v" "0 < v" "p_points p = to_double v" by blast
  let ?s' = "redeemed_store s k (p_points p) bi ci"
  let ?d = "success_data p (credited s k (p_points p))"
  have first: "redeem s uid q = (?s', Success ?d)"
    using assms(1) bi(1) ci(1) _ k(1) by (rule redeem_success) (simp add: bi ci assms)
  have ids: "batchId b = p_batchId p" "qrId c = p_qrId p"
    using findIndex_Some_iff [OF bi(1) [unfolded findOne_batch_def]]
      findIndex_Some_iff [OF ci(1) [unfolded find_code_def]] bi(2) ci(2) by auto
  have d: "pointsEarned ?d = to_double v"
    "totalPoints ?d = num_add (points cu) (to_double v)"
    "data_qrId ?d = qrId c" "data_batchId ?d = batchId b"
    by (simp_all add: success_data_def credited_def k(2) ids v(3))
  have bal: "balance ?s' uid = Some (num_add (points cu) (to_double v))"
    by (simp add: balance_def findById_redeemed [OF k(1)] credited_def k(2) v(3))
  have lb: "lookup_batch ?s' (p_batchId p) = Some (batches ?s' ! bi)"
    using findOne_batch_redeemed [OF lt, of k "p_points p" "p_batchId p"] bi(1)
    by (simp add: lookup_batch_def find_findIndex findOne_batch_def)
  have lc: "lookup_code (batches ?s' ! bi) (p_qrId p) = Some (c\<lparr>isScanned := True\<rparr>)"
    using find_code_redeemed [OF lt, of k "p_points p" "p_qrId p"] ci lt bi(2)
    by (simp add: lookup_code_def find_findIndex find_code_def nth_batches_redeemed [OF lt])
  have exact: "\<forall>old. points cu = Finite old \<and> v \<le> 2 ^ 53 \<and> \<bar>old + v\<bar> \<le> 2 ^ 53 \<longrightarrow>
      pointsEarned ?d = Finite v \<and> totalPoints ?d = Finite (old + v)
      \<and> balance ?s' uid = Some (Finite (old + v))"
  proof (intro allI impI)
    fix old
    assume a: "points cu = Finite old \<and> v \<le> 2 ^ 53 \<and> \<bar>old + v\<bar> \<le> 2 ^ 53"
    then have b: "v \<le> 2 ^ 53" "\<bar>old + v\<bar> \<le> 2 ^ 53" by blast+
    have "to_double v = Finite v" "num_add (Finite old) (to_double v) = Finite (old + v)"
      using credit_exact [OF v(2) b] by blast+
    with a d(1,2) bal
    show "pointsEarned ?d = Finite v \<and> totalPoints ?d = Finite (old + v)
      \<and> balance ?s' uid = Some (Finite (old + v))"
      by simp
  qed
  from first v(1) d bal lb lc exact show ?thesis by blast
qed

theorem redeem_success_postcondition_witness:
  "\<exists>s' d b'. redeem ex_store ''u1'' ex_payload = (s', Success d)
      \<and> pointsEarned d = Finite 50 \<and> totalPoints d = Finite 80
      \<and> data_qrId d = ''A1'' \<and> data_batchId d = ''B1''
      \<and> balance s' ''u1'' = Some (Finite 80)
      \<and> lookup_batch s' ''B1'' = Some b'
      \<and> lookup_code b' ''A1'' = Some (ex_item\<lparr>isScanned := True\<rparr>)"
proof -
  from redeem_success_postcondition
    [OF ex_parse ex_lookup_batch ex_lookup_code ex_unscanned ex_findById]
  obtain s' d b' v where r: "redeem ex_store ''u1'' ex_payload = (s', Success d)"
    and v: "payload_points ex_payload = Some v"
    and ids: "data_qrId d = qrId ex_item" "data_batchId d = batchId ex_batch"
    and lk: "lookup_batch s' (p_batchId ex_parsed) = Some b'"
      "lookup_code b' (p_qrId ex_parsed) = Some (ex_item\<lparr>isScanned := True\<rparr>)"
    and ex: "\<forall>old. points ex_customer = Finite old \<and> v \<le> 2 ^ 53 \<and> \<bar>old + v\<bar> \<le> 2 ^ 53 \<longrightarrow>
             pointsEarned d = Finite v \<and> totalPoints d = Finite (old + v)
             \<and> balance s' ''u1'' = Some (Finite (old + v))"
    by blast
  have "payload_points ex_payload = Some 50" by code_simp
  with v have v50: "v = 50" by simp
  have "points ex_customer = Finite 30 \<and> (50::int) \<le> 2 ^ 53 \<and> \<bar>30 + 50 :: int\<bar> \<le> 2 ^ 53"
    by (simp add: ex_customer_def)
  with ex v50 have n: "pointsEarned d = Finite 50 \<and> totalPoints d = Finite (30 + 50)
      \<and> balance s' ''u1'' = Some (Finite (30 + 50))"
    by blast
  from ids have i: "data_qrId d = ''A1''" "data_batchId d = ''B1''"
    by (simp_all add: ex_item_def ex_batch_def)
  from lk have l: "lookup_batch s' ''B1'' = Some b'"
    "lookup_code b' ''A1'' = Some (ex_item\<lparr>isScanned := True\<rparr>)"
    by (simp_all add: ex_parsed_def)
  from r n i l show ?thesis by auto
qed

section \<open>\<open>isScanned\<close> never reverts\<close>

text \<open>
  Claim C5. Along any sequence of operations (scans, administrative adjustments, writes
  to the customer collection), the history of a code's \<open>isScanned\<close> flag is some number
  of \<open>False\<close> followed by some number of \<open>True\<close>: it changes at most once, from false to
  true, and never back. The position keeps denoting the same code of the same batch.
\<close>

theorem isScanned_one_way:
  assumes "j < length (batches s)" and "i < length (qrCodes (batches s ! j))"
  shows "(\<exists>a b. map (\<lambda>s'. isScanned (qrCodes (batches s' ! j) ! i)) (states s xs)
            = replicate a False @ replicate b True)
       \<and> (\<forall>s'\<in>set (states s xs).
            j < length (batches s') \<and> i < length (qrCodes (batches s' ! j))
            \<and> batchId (batches s' ! j) = batchId (batches s ! j)
            \<and> qrId (qrCodes (batches s' ! j) ! i) = qrId (qrCodes (batches s ! j) ! i))"
proof
  show "\<exists>a b. map (\<lambda>s'. isScanned (qrCodes (batches s' ! j) ! i)) (states s xs)
            = replicate a False @ replicate b True"
    using assms by (rule flag_history_shape)
next
  show "\<forall>s'\<in>set (states s xs).
            j < length (batches s') \<and> i < length (qrCodes (batches s' ! j))
            \<and> batchId (batches s' ! j) = batchId (batches s ! j)
            \<and> qrId (qrCodes (batches s' ! j) ! i) = qrId (qrCodes (batches s ! j) ! i)"
  proof
    fix s' assume "s' \<in> set (states s xs)"
    then have "store_le s s'" by (rule states_store_le)
    from store_leD [OF this assms]
    show "j < length (batches s') \<and> i < length (qrCodes (batches s' ! j))
            \<and> batchId (batches s' ! j) = batchId (batches s ! j)
            \<and> qrId (qrCodes (batches s' ! j) ! i) = qrId (qrCodes (batches s ! j) ! i)"
      by simp
  qed
qed

lemma ex_history:
  "map (\<lambda>s'. isScanned (qrCodes (batches s' ! 0) ! 0)) (states ex_store ex_operations)
     = [False, False, True, True, True]"
  by code_simp

theorem isScanned_one_way_witness:
  "(\<exists>a b. map (\<lambda>s'. isScanned (qrCodes (batches s' ! 0) ! 0)) (states ex_store ex_operations)
            = replicate a False @ replicate b True)
   \<and> list_all (\<lambda>s'. 0 < length (batches s') \<and> 0 < length (qrCodes (batches s' ! 0))
            \<and> batchId (batches s' ! 0) = ''B1''
            \<and> qrId (qrCodes (batches s' ! 0) ! 0) = ''A1'') (states ex_store ex_operations)"
proof -
  have "0 < length (batches ex_store)" "0 < length (qrCodes (batches ex_store ! 0))"
    by (simp_all add: ex_store_def ex_batch_def)
  from isScanned_one_way [OF this, of ex_operations] show ?thesis
    by (simp add: ex_store_def ex_batch_def ex_item_def list_all_iff)
qed

section \<open>Batch gating\<close>

text \<open>
  Claim C6. When every batch carrying the payload's batch id is inactive, a well-formed
  redemption attempt is rejected as batch-not-found and changes nothing, whatever the
  code's own \<open>isScanned\<close> flag is, and this stays so after any sequence of operations.
\<close>

theorem inactive_batch_rejected:
  assumes "parse_qr q = Inr p"
    and "\<forall>b\<in>set (batches s). batchId b = p_batchId p \<longrightarrow> \<not> isActive b"
  shows "redeem (run_operations s xs) uid q = (run_operations s xs, Rejected BatchNotFound)"
proof -
  let ?s' = "run_operations s xs"
  from store_le_inactive [OF store_le_run_operations assms(2)]
  have "findOne_batch ?s' (p_batchId p) = None"
    by (auto simp: findOne_batch_def findIndex_None_iff)
  with assms(1) parse_qr_Inr_nonempty [OF assms(1)] show ?thesis
    by (simp add: redeem_def)
qed

theorem inactive_batch_rejected_witness:
  "redeem (run_operations ex_inactive_store ex_operations) ''u1'' ex_payload
     = (run_operations ex_inactive_store ex_operations, Rejected BatchNotFound)"
proof -
  have "\<forall>b\<in>set (batches ex_inactive_store). batchId b = p_batchId ex_parsed \<longrightarrow> \<not> isActive b"
    by (simp add: ex_inactive_store_def)
  from inactive_batch_rejected [OF ex_parse this] show ?thesis .
qed

section \<open>Administrative adjustment\<close>

lemma newPoints_floor:
  "operation \<noteq> ''add'' \<Longrightarrow> \<not> num_lt0 (newPoints operation current pts)"
  by (simp add: newPoints_def max0_not_negative)

lemma newPoints_examples:
  "newPoints ''subtract'' (Finite 30) (Finite 100) = Finite 0"
  "newPoints ''set'' (Finite 30) (Finite (- 10)) = Finite 0"
  by code_simp+

text \<open>
  Claim C9. The claim asks for a balance that is never negative in all three modes.
  \<open>subtract\<close> and \<open>set\<close> clamp at zero (\<open>newPoints_floor\<close>); \<open>add\<close> stores the plain
  sum: a balance of 30 with \<open>add\<close> and \<open>-100\<close> becomes \<open>-70\<close>.
\<close>

theorem add_leaves_negative_balance:
  "patch_points ex_store ''ann'' (Some (- 100)) (Some ''add'')
     = (ex_store\<lparr>customers := [ex_customer\<lparr>points := Finite (- 70)\<rparr>]\<rparr>,
        PatchOk \<lparr>patch_username = ''ann'', patch_name = ''Ann'', previousPoints = Finite 30,
                 currentPoints = Finite (- 70), patch_operation = ''add''\<rparr>)"
  by code_simp


section \<open>When parsing fails\<close>





section \<open>How labels are matched\<close>

text \<open>
  Claim C8, as stated: the label is matched without regard to letter case, and white
  space around the label is tolerated. The same payload with the label written \<open>qr id:\<close>,
  or with a space before the colon, is rejected as missing the field.
\<close>

theorem label_case_counterexample:
  "parse_qr ''QR ID: A1\<newline>Batch ID: B1\<newline>Points: 50''
     = Inr \<lparr>p_qrId = ''A1'', p_batchId = ''B1'', p_points = Finite 50\<rparr>
   \<and> parse_qr ''qr id: A1\<newline>Batch ID: B1\<newline>Points: 50'' = Inl MissingFields
   \<and> parse_qr ''QR ID : A1\<newline>Batch ID: B1\<newline>Points: 50'' = Inl MissingFields"
  by code_simp

text \<open>
  Claim C8, amended: a line matches a label exactly when, after any leading white space,
  it starts with the label text \<open>QR ID:\<close>, \<open>Batch ID:\<close> or \<open>Points:\<close>, letter for letter
  and with the colon directly after it. A value without a colon is returned with the
  white space on both sides removed. A payload parses to a result exactly when each
  label has a first matching line, wherever it stands among the lines, the code id and
  batch id of the result are the fields of the first lines matching their labels, and
  the points are what \<open>parseInt\<close> makes of the field of the first line matching
  \<open>Points:\<close>, a number above zero. So the labels may come in any line order (reordering
  the lines of a payload in which each label matches at most one line does not change
  the result) and the first matching line wins (lines appended after a matching line of
  each label do not change the result).
\<close>

theorem parser_label_conventions:
  "(is_qrIdLine l \<longleftrightarrow> (\<exists>ws rest. (\<forall>c\<in>set ws. js_isspace c) \<and> l = ws @ ''QR ID:'' @ rest))
   \<and> (is_batchIdLine l \<longleftrightarrow> (\<exists>ws rest. (\<forall>c\<in>set ws. js_isspace c) \<and> l = ws @ ''Batch ID:'' @ rest))
   \<and> (is_pointsLine l \<longleftrightarrow> (\<exists>ws rest. (\<forall>c\<in>set ws. js_isspace c) \<and> l = ws @ ''Points:'' @ rest))
   \<and> ((\<forall>c\<in>set w1. js_isspace c) \<and> (\<forall>c\<in>set w2. js_isspace c) \<and> (\<forall>c\<in>set w3. js_isspace c)
        \<and> CHR '':'' \<notin> set lab \<and> CHR '':'' \<notin> set v
        \<and> (v = [] \<or> \<not> js_isspace (hd v) \<and> \<not> js_isspace (last v))
      \<longrightarrow> field_value (w1 @ lab @ CHR '':'' # w2 @ v @ w3) = Inr v)
   \<and> (parse_qr q = Inr r \<longleftrightarrow>
        (\<exists>ql bl pl f. first_match is_qrIdLine (js_split CHR 0x0A q) ql
           \<and> first_match is_batchIdLine (js_split CHR 0x0A q) bl
           \<and> first_match is_pointsLine (js_split CHR 0x0A q) pl
           \<and> field_value ql = Inr (p_qrId r) \<and> field_value bl = Inr (p_batchId r)
           \<and> field_value pl = Inr f \<and> js_parseInt f = p_points r
           \<and> \<not> js_isNaN (p_points r) \<and> \<not> num_le0 (p_points r)))
   \<and> (ls \<noteq> [] \<and> (\<forall>x\<in>set ls. CHR 0x0A \<notin> set x) \<and> mset ls' = mset ls
        \<and> length (filter is_qrIdLine ls) \<le> 1 \<and> length (filter is_batchIdLine ls) \<le> 1
        \<and> length (filter is_pointsLine ls) \<le> 1
      \<longrightarrow> parse_qr (js_join CHR 0x0A ls') = parse_qr (js_join CHR 0x0A ls))
   \<and> (ls \<noteq> [] \<and> (\<forall>x\<in>set (ls @ extra). CHR 0x0A \<notin> set x)
        \<and> (\<exists>x\<in>set ls. is_qrIdLine x) \<and> (\<exists>x\<in>set ls. is_batchIdLine x)
        \<and> (\<exists>x\<in>set ls. is_pointsLine x)
      \<longrightarrow> parse_qr (js_join CHR 0x0A (ls @ extra)) = parse_qr (js_join CHR 0x0A ls))"
proof (intro conjI impI)
  show "is_qrIdLine l \<longleftrightarrow> (\<exists>ws rest. (\<forall>c\<in>set ws. js_isspace c) \<and> l = ws @ ''QR ID:'' @ rest)"
    by (rule is_qrIdLine_iff)
  show "is_batchIdLine l \<longleftrightarrow> (\<exists>ws rest. (\<forall>c\<in>set ws. js_isspace c) \<and> l = ws @ ''Batch ID:'' @ rest)"
    by (rule is_batchIdLine_iff)
  show "is_pointsLine l \<longleftrightarrow> (\<exists>ws rest. (\<forall>c\<in>set ws. js_isspace c) \<and> l = ws @ ''Points:'' @ rest)"
    by (rule is_pointsLine_iff)
next
  assume "(\<forall>c\<in>set w1. js_isspace c) \<and> (\<forall>c\<in>set w2. js_isspace c) \<and> (\<forall>c\<in>set w3. js_isspace c)
        \<and> CHR '':'' \<notin> set lab \<and> CHR '':'' \<notin> set v
        \<and> (v = [] \<or> \<not> js_isspace (hd v) \<and> \<not> js_isspace (last v))"
  then show "field_value (w1 @ lab @ CHR '':'' # w2 @ v @ w3) = Inr v"
    by (intro field_value_trimmed) simp_all
next
  show "parse_qr q = Inr r \<longleftrightarrow>
        (\<exists>ql bl pl f. first_match is_qrIdLine (js_split CHR 0x0A q) ql
           \<and> first_match is_batchIdLine (js_split CHR 0x0A q) bl
           \<and> first_match is_pointsLine (js_split CHR 0x0A q) pl
           \<and> field_value ql = Inr (p_qrId r) \<and> field_value bl = Inr (p_batchId r)
           \<and> field_value pl = Inr f \<and> js_parseInt f = p_points r
           \<and> \<not> js_isNaN (p_points r) \<and> \<not> num_le0 (p_points r))"
    by (rule parse_qr_Inr_first_match)
next
  assume a: "ls \<noteq> [] \<and> (\<forall>x\<in>set ls. CHR 0x0A \<notin> set x) \<and> mset ls' = mset ls
        \<and> length (filter is_qrIdLine ls) \<le> 1 \<and> length (filter is_batchIdLine ls) \<le> 1
        \<and> length (filter is_pointsLine ls) \<le> 1"
  then have "set ls' = set ls" "ls' \<noteq> []"
    by (auto dest: mset_eq_setD)
  with a have "parse_qr (js_join CHR 0x0A ls') = parse_lines ls'"
    "parse_qr (js_join CHR 0x0A ls) = parse_lines ls"
    by (simp_all add: parse_qr_join)
  moreover from a have "parse_lines ls' = parse_lines ls"
    by (intro parse_lines_permuted) simp_all
  ultimately show "parse_qr (js_join CHR 0x0A ls') = parse_qr (js_join CHR 0x0A ls)"
    by simp
next
  assume a: "ls \<noteq> [] \<and> (\<forall>x\<in>set (ls @ extra). CHR 0x0A \<notin> set x)
        \<and> (\<exists>x\<in>set ls. is_qrIdLine x) \<and> (\<exists>x\<in>set ls. is_batchIdLine x)
        \<and> (\<exists>x\<in>set ls. is_pointsLine x)"
  then have "parse_qr (js_join CHR 0x0A (ls @ extra)) = parse_lines (ls @ extra)"
    "parse_qr (js_join CHR 0x0A ls) = parse_lines ls"
    by (simp_all add: parse_qr_join)
  moreover from a have "parse_lines (ls @ extra) = parse_lines ls"
    by (intro parse_lines_append_found) simp_all
  ultimately show "parse_qr (js_join CHR 0x0A (ls @ extra)) = parse_qr (js_join CHR 0x0A ls)"
    by simp
qed

theorem parser_label_conventions_witness:
  "is_qrIdLine ''  QR ID: A1''
   \<and> field_value ''  QR ID:  A1  '' = Inr ''A1''
   \<and> parse_qr (js_join CHR 0x0A ex_dup_lines)
       = Inr \<lparr>p_qrId = ''A'', p_batchId = ''X'', p_points = Finite 5\<rparr>
   \<and> parse_qr (js_join CHR 0x0A ex_lines_reordered) = parse_qr (js_join CHR 0x0A ex_lines)
   \<and> parse_qr (js_join CHR 0x0A (ex_lines @ ex_lines_extra)) = parse_qr (js_join CHR 0x0A ex_lines)"
proof -
  let ?r = "\<lparr>p_qrId = ''A'', p_batchId = ''X'', p_points = Finite 5\<rparr>"
  note T = parser_label_conventions [where l = "''  QR ID: A1''" and ?w1.0 = "''  ''"
      and lab = "''QR ID''" and ?w2.0 = "''  ''" and v = "''A1''" and ?w3.0 = "''  ''"
      and q = "js_join CHR 0x0A ex_dup_lines" and r = ?r
      and ls = ex_lines and ls' = ex_lines_reordered and extra = ex_lines_extra]
  have sp: "\<forall>c\<in>set ''  ''. js_isspace c"
    by (simp add: js_isspace_def)
  have "\<exists>ws rest. (\<forall>c\<in>set ws. js_isspace c) \<and> ''  QR ID: A1'' = ws @ ''QR ID:'' @ rest"
  proof (intro exI conjI)
    show "\<forall>c\<in>set ''  ''. js_isspace c" by (rule sp)
    show "''  QR ID: A1'' = ''  '' @ ''QR ID:'' @ '' A1''" by simp
  qed
  with T have 1: "is_qrIdLine ''  QR ID: A1''"
    by blast
  have "CHR '':'' \<notin> set ''QR ID''" "CHR '':'' \<notin> set ''A1''"
    "''A1'' = [] \<or> \<not> js_isspace (hd ''A1'') \<and> \<not> js_isspace (last ''A1'')"
    by (simp_all add: js_isspace_def)
  with sp T have "field_value (''  '' @ ''QR ID'' @ CHR '':'' # ''  '' @ ''A1'' @ ''  '') = Inr ''A1''"
    by blast
  then have 2: "field_value ''  QR ID:  A1  '' = Inr ''A1''"
    by simp
  have sl: "js_split CHR 0x0A (js_join CHR 0x0A ex_dup_lines)
      = [''Points: 5''] @ ''  QR ID:  A  '' # [''QR ID: B'', ''Batch ID: X'']"
    "js_split CHR 0x0A (js_join CHR 0x0A ex_dup_lines)
      = [''Points: 5'', ''  QR ID:  A  '', ''QR ID: B''] @ ''Batch ID: X'' # []"
    "js_split CHR 0x0A (js_join CHR 0x0A ex_dup_lines)
      = [] @ ''Points: 5'' # [''  QR ID:  A  '', ''QR ID: B'', ''Batch ID: X'']"
    by code_simp+
  have fq: "first_match is_qrIdLine (js_split CHR 0x0A (js_join CHR 0x0A ex_dup_lines)) ''  QR ID:  A  ''"
    using sl(1) by (rule first_matchI) code_simp+
  have fb: "first_match is_batchIdLine (js_split CHR 0x0A (js_join CHR 0x0A ex_dup_lines)) ''Batch ID: X''"
    using sl(2) by (rule first_matchI) code_simp+
  have fp: "first_match is_pointsLine (js_split CHR 0x0A (js_join CHR 0x0A ex_dup_lines)) ''Points: 5''"
    using sl(3) by (rule first_matchI) code_simp+
  have fv: "field_value ''  QR ID:  A  '' = Inr (p_qrId ?r)"
    "field_value ''Batch ID: X'' = Inr (p_batchId ?r)"
    "field_value ''Points: 5'' = Inr ''5''" "js_parseInt ''5'' = p_points ?r"
    "\<not> js_isNaN (p_points ?r)" "\<not> num_le0 (p_points ?r)"
    by code_simp+
  from fq fb fp fv
  have "\<exists>ql bl pl f. first_match is_qrIdLine (js_split CHR 0x0A (js_join CHR 0x0A ex_dup_lines)) ql
           \<and> first_match is_batchIdLine (js_split CHR 0x0A (js_join CHR 0x0A ex_dup_lines)) bl
           \<and> first_match is_pointsLine (js_split CHR 0x0A (js_join CHR 0x0A ex_dup_lines)) pl
           \<and> field_value ql = Inr (p_qrId ?r) \<and> field_value bl = Inr (p_batchId ?r)
           \<and> field_value pl = Inr f \<and> js_parseInt f = p_points ?r
           \<and> \<not> js_isNaN (p_points ?r) \<and> \<not> num_le0 (p_points ?r)"
    by blast
  with T have 3: "parse_qr (js_join CHR 0x0A ex_dup_lines) = Inr ?r"
    by blast
  have nl: "ex_lines \<noteq> []" "\<forall>x\<in>set ex_lines. CHR 0x0A \<notin> set x"
    "\<forall>x\<in>set (ex_lines @ ex_lines_extra). CHR 0x0A \<notin> set x"
    by (simp_all add: ex_lines_def ex_lines_extra_def)
  have perm: "mset ex_lines_reordered = mset ex_lines"
    by (simp add: ex_lines_def ex_lines_reordered_def)
  have uniq: "length (filter is_qrIdLine ex_lines) \<le> 1" "length (filter is_batchIdLine ex_lines) \<le> 1"
    "length (filter is_pointsLine ex_lines) \<le> 1"
    by code_simp+
  have found: "\<exists>x\<in>set ex_lines. is_qrIdLine x" "\<exists>x\<in>set ex_lines. is_batchIdLine x"
    "\<exists>x\<in>set ex_lines. is_pointsLine x"
    by code_simp+
  from T nl(1,2) perm uniq
  have 4: "parse_qr (js_join CHR 0x0A ex_lines_reordered) = parse_qr (js_join CHR 0x0A ex_lines)"
    by blast
  from T nl(1,3) found
  have 5: "parse_qr (js_join CHR 0x0A (ex_lines @ ex_lines_extra)) = parse_qr (js_join CHR 0x0A ex_lines)"
    by blast
  from 1 2 3 4 5 show ?thesis by blast
qed

lemma ex_lines_parse:
  "parse_qr (js_join CHR 0x0A (ex_lines @ ex_lines_extra))
     = Inr \<lparr>p_qrId = ''A1'', p_batchId = ''B1'', p_points = Finite 50\<rparr>"
  by code_simp

section \<open>Values that contain a colon\<close>

text \<open>
  Claim C10. For a successfully parsed payload, when the line chosen for a field has a
  second colon, the field is the trimmed text between the line's first and second colon:
  the code id, the batch id, and the text handed to \<open>parseInt\<close> for the points. What
  follows the second colon is dropped.
\<close>

theorem colon_in_value_truncated:
  assumes "parse_qr q = Inr r"
    and "line = a @ CHR '':'' # b @ CHR '':'' # c"
    and "CHR '':'' \<notin> set a" and "CHR '':'' \<notin> set b"
  shows "(find is_qrIdLine (js_split CHR 0x0A q) = Some line \<longrightarrow> p_qrId r = js_trim b)
       \<and> (find is_batchIdLine (js_split CHR 0x0A q) = Some line \<longrightarrow> p_batchId r = js_trim b)
       \<and> (find is_pointsLine (js_split CHR 0x0A q) = Some line \<longrightarrow>
            js_parseInt (js_trim b) = p_points r)"
proof -
  have fv: "field_value line = Inr (js_trim b)"
    unfolding assms(2) using assms(3,4) by (rule field_value_truncated)
  from assms(1) show ?thesis
    unfolding parse_qr_def parse_lines_Inr_iff using fv by auto
qed

lemma ex_colon_parse:
  "parse_qr ex_colon_payload = Inr \<lparr>p_qrId = ''A'', p_batchId = ''http'', p_points = Finite 7\<rparr>"
  by code_simp

lemma ex_colon_lines:
  "find is_qrIdLine (js_split CHR 0x0A ex_colon_payload) = Some ''QR ID: A:B''"
  "find is_batchIdLine (js_split CHR 0x0A ex_colon_payload) = Some ''Batch ID: http://x''"
  "find is_pointsLine (js_split CHR 0x0A ex_colon_payload) = Some ''Points: 7:9''"
  by code_simp+

theorem colon_in_value_truncated_witness:
  "\<exists>r. parse_qr ex_colon_payload = Inr r
     \<and> p_qrId r = js_trim '' A'' \<and> p_batchId r = js_trim '' http''
     \<and> js_parseInt (js_trim '' 7'') = p_points r"
proof -
  let ?r = "\<lparr>p_qrId = ''A'', p_batchId = ''http'', p_points = Finite 7\<rparr>"
  have 1: "''QR ID: A:B'' = ''QR ID'' @ CHR '':'' # '' A'' @ CHR '':'' # ''B''"
    and 2: "''Batch ID: http://x'' = ''Batch ID'' @ CHR '':'' # '' http'' @ CHR '':'' # ''//x''"
    and 3: "''Points: 7:9'' = ''Points'' @ CHR '':'' # '' 7'' @ CHR '':'' # ''9''"
    by simp_all
  from colon_in_value_truncated [OF ex_colon_parse 1] ex_colon_lines(1)
  have "p_qrId ?r = js_trim '' A''"
    by simp
  moreover from colon_in_value_truncated [OF ex_colon_parse 2] ex_colon_lines(2)
  have "p_batchId ?r = js_trim '' http''"
    by simp
  moreover from colon_in_value_truncated [OF ex_colon_parse 3] ex_colon_lines(3)
  have "js_parseInt (js_trim '' 7'') = p_points ?r"
    by simp
  ultimately show ?thesis using ex_colon_parse by blast
qed

end
